theory Spec2Isabelle
  imports Main "HOL-Library.Word"
begin

unbundle bit_operations_syntax

section \<open>The Azure storage source: \<open>azure_storage_source.cpp\<close>\<close>

subsection \<open>Constants and types of the headers\<close>

text \<open>
  The file uses constants of \<open>errno.h\<close> and \<open>wiredtiger.h\<close>. The headers are not part of
  the sources, so the values are parameters: every function below takes the record of
  constants as its first argument.
\<close>

record wt_consts =
  EINVAL :: int
  ENOENT :: int
  ENOMEM :: int
  ENOTSUP :: int
  WT_NOTFOUND :: int
  WT_FS_OPEN_READONLY :: "32 word"
  WT_FS_OPEN_CREATE :: "32 word"

text \<open>The enumeration \<open>WT_FS_OPEN_FILE_TYPE\<close> of \<open>wiredtiger.h\<close>.\<close>

datatype WT_FS_OPEN_FILE_TYPE =
    WT_FS_OPEN_FILE_TYPE_CHECKPOINT
  | WT_FS_OPEN_FILE_TYPE_DATA
  | WT_FS_OPEN_FILE_TYPE_DIRECTORY
  | WT_FS_OPEN_FILE_TYPE_LOG
  | WT_FS_OPEN_FILE_TYPE_REGULAR

text \<open>What a function writes to \<open>std::cout\<close> and \<open>std::cerr\<close>, in order.\<close>

datatype out = Cout string | Cerr string

text \<open>The outcome of \<open>new\<close>: the object, or \<open>std::bad_alloc\<close> with its \<open>what()\<close>.\<close>

datatype alloc = Alloc_ok | Bad_alloc string

text \<open>
  The function pointers stored in the tables \<open>WT_FILE_SYSTEM\<close> and \<open>WT_FILE_HANDLE\<close>:
  one name per static function of the file; \<open>nullptr\<close> is \<open>None\<close>.
\<close>

datatype azure_fn =
    Azure_object_list
  | Azure_object_list_single
  | Azure_object_list_free
  | Azure_file_system_terminate
  | Azure_file_system_exists
  | Azure_file_open
  | Azure_remove
  | Azure_rename
  | Azure_object_size
  | Azure_file_close
  | Azure_file_lock
  | Azure_file_read
  | Azure_file_size

record WT_FILE_SYSTEM =
  fs_directory_list :: "azure_fn option"
  fs_directory_list_single :: "azure_fn option"
  fs_directory_list_free :: "azure_fn option"
  terminate :: "azure_fn option"
  fs_exist :: "azure_fn option"
  fs_open_file :: "azure_fn option"
  fs_remove :: "azure_fn option"
  fs_rename :: "azure_fn option"
  fs_size :: "azure_fn option"

record WT_FILE_HANDLE =
  close :: "azure_fn option"
  fh_advise :: "azure_fn option"
  fh_extend :: "azure_fn option"
  fh_extend_nolock :: "azure_fn option"
  fh_lock :: "azure_fn option"
  fh_map :: "azure_fn option"
  fh_map_discard :: "azure_fn option"
  fh_unmap :: "azure_fn option"
  fh_read :: "azure_fn option"
  fh_size :: "azure_fn option"
  fh_sync :: "azure_fn option"
  fh_sync_nowait :: "azure_fn option"
  fh_truncate :: "azure_fn option"
  fh_write :: "azure_fn option"
  wt_name :: string

text \<open>
  The collaborators the file calls. \<open>azure_connection\<close> (declared in
  \<open>azure_connection.h\<close>) talks to the remote bucket, the native WiredTiger file system
  and \<open>std::filesystem\<close> read the local disk. Their answers are inputs of the model:
  \<open>object_exists\<close> answers with its return code, the \<open>exists\<close> flag and the size,
  \<open>put_object\<close> with its return code, the native \<open>fs_exist\<close> with its return code and
  the flag it stores.
\<close>

record azure_connection =
  object_exists :: "string \<Rightarrow> int \<times> bool \<times> nat"
  put_object :: "string \<Rightarrow> string \<Rightarrow> int"

record native_file_system =
  native_fs_exist :: "string \<Rightarrow> int \<times> bool"

record local_disk =
  disk_exists :: "string \<Rightarrow> bool"
  canonical :: "string \<Rightarrow> string"

subsection \<open>The structs and the heap\<close>

text \<open>
  Pointers are indices into the lists of allocated objects, and a pointer the caller
  passes is taken to be valid (an index inside its list), as the C++ does. The field
  \<open>fs\<close> of \<open>azure_file_handle\<close> is \<open>fh_fs\<close> here, the field \<open>name\<close> of
  \<open>WT_FILE_HANDLE\<close> is \<open>wt_name\<close> and the field \<open>reference_count\<close> of \<open>azure_store\<close>
  is \<open>store_reference_count\<close>, since record fields share one name space. There is one
  \<open>azure_store\<close>, so the back pointer \<open>store\<close> of \<open>azure_file_system\<close> and the
  pointer \<open>wt_api\<close> are left out, and so are the mutexes: the model is of one thread.
\<close>

record azure_file_handle =
  fh :: WT_FILE_HANDLE
  fh_fs :: nat
  name :: string
  reference_count :: "32 word"

record azure_file_system =
  fs :: WT_FILE_SYSTEM
  wt_fs :: native_file_system
  azure_fh :: "nat list"
  azure_conn :: azure_connection
  home_dir :: string

record azure_store =
  azure_fs :: "nat list"
  store_reference_count :: "32 word"

text \<open>
  The memory: the one \<open>azure_store\<close>, every \<open>azure_file_system\<close> and every
  \<open>azure_file_handle\<close> allocated so far. \<open>azure_file_close\<close> never frees a handle, so
  the list of handles only grows.
\<close>

record heap =
  storage :: azure_store
  fss :: "azure_file_system list"
  fhs :: "azure_file_handle list"

subsection \<open>\<open>wiredtiger_extension_init\<close>\<close>

text \<open>
  The entry point allocates the store with one reference and no file system.
  \<open>added\<close> is the answer of \<open>add_storage_source\<close>; when it is not 0 the store is
  deleted again and nothing is left (\<open>None\<close>).
\<close>

definition wiredtiger_extension_init :: "int \<Rightarrow> int \<times> heap option \<times> out list" where
  "wiredtiger_extension_init added =
     (if added \<noteq> 0 then
        (- 1, None,
         [Cerr (''wiredtiger_extension_init: Could not load Azure storage source, ''
                @ ''shutting down.'')])
      else
        (0, Some \<lparr>storage = \<lparr>azure_fs = [], store_reference_count = 1\<rparr>, fss = [], fhs = []\<rparr>,
         []))"

subsection \<open>\<open>azure_customize_file_system\<close>\<close>

text \<open>The nine assignments to \<open>azure_fs->fs\<close>.\<close>

definition azure_fs_table :: WT_FILE_SYSTEM where
  "azure_fs_table =
     \<lparr>fs_directory_list = Some Azure_object_list,
      fs_directory_list_single = Some Azure_object_list_single,
      fs_directory_list_free = Some Azure_object_list_free,
      terminate = Some Azure_file_system_terminate,
      fs_exist = Some Azure_file_system_exists,
      fs_open_file = Some Azure_file_open,
      fs_remove = Some Azure_remove,
      fs_rename = Some Azure_rename,
      fs_size = Some Azure_object_size\<rparr>"

text \<open>
  \<open>bucket\<close> is \<open>None\<close> for \<open>nullptr\<close>. \<open>cfg\<close> is the answer of \<open>config_get_string\<close> for
  the key \<open>prefix\<close> (return code and string), \<open>fsget\<close> the answer of \<open>file_system_get\<close>,
  \<open>home\<close> the answer of \<open>get_home\<close>, \<open>mk_conn\<close> the constructor of
  \<open>azure_connection\<close>, which throws \<open>std::runtime_error\<close> (\<open>Inl\<close> its \<open>what()\<close>) or
  yields the connection. The result is the return code, the pointer stored in
  \<open>*file_system\<close> (\<open>None\<close> when nothing is stored), the memory and the output. The
  object leaked on the \<open>ENOENT\<close> path is unreachable and is not added to the memory.
\<close>

definition azure_customize_file_system ::
  "wt_consts \<Rightarrow> heap \<Rightarrow> string option \<Rightarrow> int \<times> string \<Rightarrow> int \<times> native_file_system \<Rightarrow>
   alloc \<Rightarrow> string \<Rightarrow> (string \<Rightarrow> string \<Rightarrow> string + azure_connection) \<Rightarrow>
   int \<times> nat option \<times> heap \<times> out list" where
  "azure_customize_file_system K h bucket cfg fsget nw home mk_conn =
     (if bucket = None \<or> bucket = Some [] then
        (EINVAL K, None, h, [Cerr ''azure_customize_file_system: Bucket not specified.''])
      else if fst cfg \<noteq> 0 \<and> fst cfg \<noteq> WT_NOTFOUND K then
        (fst cfg, None, h,
         [Cerr ''azure_customize_file_system: error parsing config for object prefix.''])
      else
        let obj_prefix = (if fst cfg = 0 then snd cfg else []);
            ret = fst fsget;
            wt_file_system = snd fsget
        in if ret \<noteq> 0 then (ret, None, h, [])
           else case nw of
             Bad_alloc w \<Rightarrow>
               (ENOMEM K, None, h, [Cerr (''azure_customize_file_system: '' @ w)])
           | Alloc_ok \<Rightarrow>
               (case mk_conn (the bucket) obj_prefix of
                  Inl w \<Rightarrow>
                    (ENOENT K, None, h, [Cerr (''azure_customize_file_system: '' @ w)])
                | Inr conn \<Rightarrow>
                    let p = length (fss h);
                        new_fs = \<lparr>fs = azure_fs_table, wt_fs = wt_file_system,
                                  azure_fh = [], azure_conn = conn, home_dir = home\<rparr>
                    in (ret, Some p,
                        h\<lparr>fss := fss h @ [new_fs],
                          storage := (storage h)\<lparr>azure_fs := azure_fs (storage h) @ [p]\<rparr>\<rparr>,
                        [])))"

subsection \<open>\<open>azure_flush\<close>\<close>

text \<open>
  The function changes no memory of the extension, so the result is the return code and
  the output. \<open>disk\<close> answers \<open>std::filesystem::exists\<close> and
  \<open>std::filesystem::canonical\<close>.
\<close>

definition azure_flush ::
  "wt_consts \<Rightarrow> heap \<Rightarrow> local_disk \<Rightarrow> nat \<Rightarrow> string \<Rightarrow> string \<Rightarrow> int \<times> out list" where
  "azure_flush K h disk file_system source object =
     (let azure_fs = fss h ! file_system;
          wtFileSystem = wt_fs azure_fs
      in if \<not> disk_exists disk source then
           (ENOENT K, [Cerr (''azure_flush: Object: '' @ object @ '' does not exist.'')])
         else
           let ret = fst (native_fs_exist wtFileSystem (canonical disk source));
               exists_native = snd (native_fs_exist wtFileSystem (canonical disk source))
           in if ret \<noteq> 0 then
                (ret, [Cerr (''azure_flush: Failed to check for the existence of '' @ source
                         @ '' on the native filesystem.'')])
              else if \<not> exists_native then
                (ENOENT K, [Cerr (''azure_flush: '' @ object @ '' No such file.'')])
              else
                (ret,
                 Cout (''azure_flush: Uploading object: '' @ object
                         @ '' into bucket using put_object.'')
                 # (if put_object (azure_conn azure_fs) object (canonical disk source) \<noteq> 0
                    then [Cerr ''azure_flush: Put object request to Azure failed.'']
                    else [Cout ''azure_flush: Uploaded object to Azure.''])))"

subsection \<open>\<open>azure_remove\<close> and \<open>azure_rename\<close>\<close>

definition azure_remove ::
  "wt_consts \<Rightarrow> heap \<Rightarrow> nat \<Rightarrow> string \<Rightarrow> 32 word \<Rightarrow> int \<times> heap \<times> out list" where
  "azure_remove K h file_system nm flags =
     (ENOTSUP K, h,
      [Cerr (''azure_remove: Object: '' @ nm @ '': remove of file not supported.'')])"

definition azure_rename ::
  "wt_consts \<Rightarrow> heap \<Rightarrow> nat \<Rightarrow> string \<Rightarrow> string \<Rightarrow> 32 word \<Rightarrow> int \<times> heap \<times> out list" where
  "azure_rename K h file_system from to flags =
     (ENOTSUP K, h,
      [Cerr (''azure_rename: Object: '' @ from @ '': rename of file not supported.'')])"

subsection \<open>\<open>azure_file_open\<close> and \<open>azure_file_close\<close>\<close>

text \<open>The fifteen assignments to \<open>azure_fh->fh\<close>.\<close>

definition azure_fh_table :: "string \<Rightarrow> WT_FILE_HANDLE" where
  "azure_fh_table nm =
     \<lparr>close = Some Azure_file_close,
      fh_advise = None,
      fh_extend = None,
      fh_extend_nolock = None,
      fh_lock = Some Azure_file_lock,
      fh_map = None,
      fh_map_discard = None,
      fh_unmap = None,
      fh_read = Some Azure_file_read,
      fh_size = Some Azure_file_size,
      fh_sync = None,
      fh_sync_nowait = None,
      fh_truncate = None,
      fh_write = None,
      wt_name = nm\<rparr>"

text \<open>
  The result is the return code, the pointer stored in \<open>*file_handlep\<close> (\<open>None\<close> when
  nothing is stored), the memory and the output. \<open>std::find_if\<close> is \<open>find\<close>: the first
  handle of the list with the name. The counter is a \<open>uint32_t\<close> and wraps.
\<close>

definition azure_file_open ::
  "wt_consts \<Rightarrow> heap \<Rightarrow> nat \<Rightarrow> string \<Rightarrow> WT_FS_OPEN_FILE_TYPE \<Rightarrow> 32 word \<Rightarrow> alloc \<Rightarrow>
   int \<times> nat option \<times> heap \<times> out list" where
  "azure_file_open K h file_system nm file_type flags nw =
     (let azure_fs = fss h ! file_system
      in if flags AND WT_FS_OPEN_READONLY K = 0 \<or> flags AND WT_FS_OPEN_CREATE K \<noteq> 0 then
           (EINVAL K, None, h, [Cerr ''azure_file_open: read-only access required.''])
         else if file_type \<noteq> WT_FS_OPEN_FILE_TYPE_DATA
                 \<and> file_type \<noteq> WT_FS_OPEN_FILE_TYPE_REGULAR then
           (EINVAL K, None, h,
            [Cerr ''azure_file_open: only data file and regular types supported.''])
         else
           let ret = fst (object_exists (azure_conn azure_fs) nm);
               exists = fst (snd (object_exists (azure_conn azure_fs) nm))
           in if ret \<noteq> 0 then
                (ret, None, h, [Cerr ''azure_file_open: object_exists request to Azure failed.''])
              else if \<not> exists then
                (EINVAL K, None, h,
                 [Cerr (''azure_file_open: no such file named '' @ nm @ ''.'')])
              else
                case find (\<lambda>p. name (fhs h ! p) = nm) (azure_fh azure_fs) of
                  Some p \<Rightarrow>
                    (0, Some p,
                     h\<lparr>fhs := (fhs h)[p := (fhs h ! p)
                          \<lparr>reference_count := reference_count (fhs h ! p) + 1\<rparr>]\<rparr>,
                     [])
                | None \<Rightarrow>
                    (case nw of
                       Bad_alloc w \<Rightarrow> (ENOMEM K, None, h, [Cerr (''azure_file_open: '' @ w)])
                     | Alloc_ok \<Rightarrow>
                         let p = length (fhs h);
                             new_fh = \<lparr>fh = azure_fh_table nm, fh_fs = file_system,
                                       name = nm, reference_count = 1\<rparr>
                         in (0, Some p,
                             h\<lparr>fhs := fhs h @ [new_fh],
                               fss := (fss h)[file_system :=
                                  azure_fs\<lparr>azure_fh := azure_fh azure_fs @ [p]\<rparr>]\<rparr>,
                             [])))"

text \<open>
  \<open>erase\<close> of \<open>std::remove\<close> deletes every occurrence of the pointer: \<open>removeAll\<close>. The
  handle itself stays allocated.
\<close>

definition azure_file_close :: "heap \<Rightarrow> nat \<Rightarrow> int \<times> heap" where
  "azure_file_close h file_handle =
     (let rc = reference_count (fhs h ! file_handle) - 1;
          h1 = h\<lparr>fhs := (fhs h)[file_handle := (fhs h ! file_handle)\<lparr>reference_count := rc\<rparr>]\<rparr>
      in if rc \<noteq> 0 then (0, h1)
         else
           let fsp = fh_fs (fhs h1 ! file_handle);
               azure_fs = fss h1 ! fsp
           in (0, h1\<lparr>fss := (fss h1)[fsp :=
                        azure_fs\<lparr>azure_fh := removeAll file_handle (azure_fh azure_fs)\<rparr>]\<rparr>))"

subsection \<open>One handle per file name\<close>

text \<open>
  The handle list of a file system is well formed when the handles it points to are
  allocated and no two of them carry the same name.
\<close>

definition fs_ok :: "azure_file_handle list \<Rightarrow> azure_file_system \<Rightarrow> bool" where
  "fs_ok hs f =
     (distinct (map (\<lambda>p. name (hs ! p)) (azure_fh f))
      \<and> list_all (\<lambda>p. p < length hs) (azure_fh f))"

definition one_handle_per_name :: "heap \<Rightarrow> bool" where
  "one_handle_per_name h = list_all (fs_ok (fhs h)) (fss h)"

text \<open>
  The four checks \<open>azure_file_open\<close> makes before it looks for a handle: read-only
  access, no create, a data or regular file, and an object the bucket reports.
\<close>

definition open_checks_pass ::
  "wt_consts \<Rightarrow> heap \<Rightarrow> nat \<Rightarrow> string \<Rightarrow> WT_FS_OPEN_FILE_TYPE \<Rightarrow> 32 word \<Rightarrow> bool" where
  "open_checks_pass K h file_system nm file_type flags =
     (flags AND WT_FS_OPEN_READONLY K \<noteq> 0 \<and> flags AND WT_FS_OPEN_CREATE K = 0
      \<and> (file_type = WT_FS_OPEN_FILE_TYPE_DATA \<or> file_type = WT_FS_OPEN_FILE_TYPE_REGULAR)
      \<and> fst (object_exists (azure_conn (fss h ! file_system)) nm) = 0
      \<and> fst (snd (object_exists (azure_conn (fss h ! file_system)) nm)))"

text \<open>
  Every file system of the memory carries the table of \<open>azure_customize_file_system\<close>
  and every handle the table of \<open>azure_file_open\<close>.
\<close>

definition tables_installed :: "heap \<Rightarrow> bool" where
  "tables_installed h =
     (list_all (\<lambda>f. fs f = azure_fs_table) (fss h)
      \<and> list_all (\<lambda>x. fh x = azure_fh_table (name x)) (fhs h))"

subsection \<open>A concrete configuration\<close>

text \<open>
  One choice of the constants (the error numbers of Linux, two distinct flag bits), a
  bucket holding the objects \<open>a.wt\<close> and \<open>c.wt\<close> whose uploads fail, and a memory with one
  file system that has one open handle on \<open>a.wt\<close>.
\<close>

definition example_consts :: wt_consts where
  "example_consts =
     \<lparr>EINVAL = 22, ENOENT = 2, ENOMEM = 12, ENOTSUP = 95, WT_NOTFOUND = - 31803,
      WT_FS_OPEN_READONLY = 256, WT_FS_OPEN_CREATE = 4\<rparr>"

definition example_conn :: azure_connection where
  "example_conn =
     \<lparr>object_exists = (\<lambda>nm. if nm = ''a.wt'' \<or> nm = ''c.wt'' then (0, True, 4096)
                              else (0, False, 0)),
      put_object = (\<lambda>object path. - 1)\<rparr>"

definition example_heap :: heap where
  "example_heap =
     \<lparr>storage = \<lparr>azure_fs = [0], store_reference_count = 1\<rparr>,
      fss = [\<lparr>fs = azure_fs_table, wt_fs = \<lparr>native_fs_exist = (\<lambda>path. (0, True))\<rparr>,
              azure_fh = [0], azure_conn = example_conn, home_dir = ''/data''\<rparr>],
      fhs = [\<lparr>fh = azure_fh_table ''a.wt'', fh_fs = 0, name = ''a.wt'',
              reference_count = 1\<rparr>]\<rparr>"

definition example_disk :: local_disk where
  "example_disk = \<lparr>disk_exists = (\<lambda>path. True), canonical = (\<lambda>path. ''/data/'' @ path)\<rparr>"

text \<open>The answers of the collaborators for a successful \<open>azure_customize_file_system\<close>.\<close>

definition example_native_answer :: "int \<times> native_file_system" where
  "example_native_answer = (0, \<lparr>native_fs_exist = (\<lambda>path. (0, True))\<rparr>)"

definition example_mk_conn :: "string \<Rightarrow> string \<Rightarrow> string + azure_connection" where
  "example_mk_conn bucket obj_prefix = Inr example_conn"

section \<open>Restoring a collection after a yield: \<open>collection_yield_restore.cpp\<close>\<close>

text \<open>
  A namespace is its string, empty for \<open>NamespaceString()\<close>; a UUID is a number. Of a
  \<open>Collection\<close> the code reads \<open>ns()\<close> and \<open>usesCappedSnapshots()\<close>.
\<close>

type_synonym NamespaceString = string
type_synonym UUID = nat

record Collection =
  ns :: NamespaceString
  usesCappedSnapshots :: bool

definition isEmpty :: "NamespaceString \<Rightarrow> bool" where
  "isEmpty n = (n = [])"

text \<open>
  The operation context, as far as the code uses it: whether the lock state holds the
  collection lock of a namespace in mode \<open>MODE_IS\<close>, the catalog lookup by UUID, and
  the calls made to the two storage helpers \<open>CappedSnapshots::establish\<close> and
  \<open>SnapshotHelper::changeReadSourceIfNeeded\<close>, recorded in order (their bodies are
  outside the sources).
\<close>

datatype call = Establish Collection | ChangeReadSourceIfNeeded NamespaceString

record OperationContext =
  isCollectionLockedForMode_IS :: "NamespaceString \<Rightarrow> bool"
  lookupCollectionByUUIDForRead :: "UUID \<Rightarrow> Collection option"
  calls :: "call list"

text \<open>A failed \<open>invariant\<close> or \<open>tassert\<close> ends the call without a result.\<close>

datatype 'a outcome = Invariant_failed | Returned 'a

text \<open>The member \<open>_nss\<close> is \<open>nss\<close>.\<close>

record LockedCollectionYieldRestore =
  nss :: NamespaceString

text \<open>The constructor; \<open>coll\<close> is \<open>None\<close> for a null \<open>CollectionPtr\<close>.\<close>

definition LockedCollectionYieldRestore_ctor ::
  "OperationContext \<Rightarrow> Collection option \<Rightarrow> LockedCollectionYieldRestore outcome" where
  "LockedCollectionYieldRestore_ctor opCtx coll =
     (let n = (case coll of Some c \<Rightarrow> ns c | None \<Rightarrow> [])
      in if \<not> isEmpty n \<and> \<not> isCollectionLockedForMode_IS opCtx n then Invariant_failed
         else Returned \<lparr>nss = n\<rparr>)"

text \<open>
  \<open>operator()\<close>: the result is the pointer returned (\<open>None\<close> for \<open>nullptr\<close>) and the
  operation context after the call.
\<close>

definition LockedCollectionYieldRestore_call ::
  "LockedCollectionYieldRestore \<Rightarrow> OperationContext \<Rightarrow> UUID \<Rightarrow>
   (Collection option \<times> OperationContext) outcome" where
  "LockedCollectionYieldRestore_call self opCtx uuid =
     (if isEmpty (nss self) then Invariant_failed
      else if \<not> isCollectionLockedForMode_IS opCtx (nss self) then Invariant_failed
      else case lookupCollectionByUUIDForRead opCtx uuid of
        None \<Rightarrow> Returned (None, opCtx)
      | Some collection \<Rightarrow>
          if ns collection \<noteq> nss self then Returned (None, opCtx)
          else
            let opCtx1 = (if usesCappedSnapshots collection
                          then opCtx\<lparr>calls := calls opCtx @ [Establish collection]\<rparr>
                          else opCtx);
                opCtx2 = opCtx1\<lparr>calls := calls opCtx1
                                  @ [ChangeReadSourceIfNeeded (ns collection)]\<rparr>
            in Returned (Some collection, opCtx2))"

text \<open>
  A context that holds the lock on \<open>test.coll\<close>; UUID 1 is that capped collection,
  UUID 2 a collection renamed to \<open>test.renamed\<close>, every other UUID is dropped.
\<close>

definition example_opCtx :: OperationContext where
  "example_opCtx =
     \<lparr>isCollectionLockedForMode_IS = (\<lambda>n. n = ''test.coll''),
      lookupCollectionByUUIDForRead =
        (\<lambda>u. if u = 1 then Some \<lparr>ns = ''test.coll'', usesCappedSnapshots = True\<rparr>
             else if u = 2 then Some \<lparr>ns = ''test.renamed'', usesCappedSnapshots = False\<rparr>
             else None),
      calls = []\<rparr>"

section \<open>The phase manager: \<open>opt_phase_manager.h\<close>\<close>

subsection \<open>What the header declares\<close>

text \<open>The enumeration \<open>OptPhase\<close>, generated from the macro \<open>OPT_PHASE\<close>.\<close>

datatype OptPhase =
    ConstEvalPre
  | PathFuse
  | MemoSubstitutionPhase
  | MemoExplorationPhase
  | MemoImplementationPhase
  | PathLower
  | ConstEvalPost

text \<open>The phases in the order in which the macro lists them.\<close>

definition OPT_PHASE :: "OptPhase list" where
  "OPT_PHASE =
     [ConstEvalPre, PathFuse, MemoSubstitutionPhase, MemoExplorationPhase,
      MemoImplementationPhase, PathLower, ConstEvalPost]"

text \<open>
  The members of \<open>OptPhaseManager\<close> the properties below read: \<open>_phaseSet\<close>,
  \<open>_supportExplain\<close>, \<open>_requireRID\<close> and \<open>_prefixId\<close>. The last one is a reference
  (\<open>PrefixId&\<close>, "We don't own this"): the address of a generator in the caller's
  memory. The members the instance owns by value (hints, metadata, memo, estimators,
  the properties map) are left out.
\<close>

record OptPhaseManager =
  phaseSet :: "OptPhase set"
  supportExplain :: bool
  requireRID :: bool
  prefixId :: nat

subsection \<open>The pipeline\<close>

text \<open>
  The header declares the constructor, \<open>optimize\<close>, \<open>optimizeNoAssert\<close> and the private
  functions \<open>hasPhase\<close>, \<open>runStructuralPhase\<close>, \<open>runStructuralPhases\<close>,
  \<open>runMemoLogicalRewrite\<close>, \<open>runMemoPhysicalRewrite\<close> and \<open>runMemoRewritePhases\<close>; their
  bodies (\<open>opt_phase_manager.cpp\<close>) are not part of the sources. The definitions of this
  subsection follow the specification of the phase manager, with the names and the
  shape of the declarations.
\<close>

text \<open>
  Modelled from the spec: the constructor of \<open>OptPhaseManager\<close> (body missing). The
  construction parameters are fixed for the run; the name generator is taken by
  reference, so the instance keeps the address it is given.
\<close>

definition OptPhaseManager_ctor ::
  "OptPhase set \<Rightarrow> nat \<Rightarrow> bool \<Rightarrow> bool \<Rightarrow> OptPhaseManager" where
  "OptPhaseManager_ctor phases prefixIdRef rid explain =
     \<lparr>phaseSet = phases, supportExplain = explain, requireRID = rid, prefixId = prefixIdRef\<rparr>"

text \<open>
  Modelled from the spec: \<open>OptPhaseManager::hasPhase\<close> (body missing): whether a phase
  is present in the configured phase set.
\<close>

definition hasPhase :: "OptPhaseManager \<Rightarrow> OptPhase \<Rightarrow> bool" where
  "hasPhase self phase = (phase \<in> phaseSet self)"

text \<open>
  Modelled from the spec: the rewriters the phase manager drives (transport passes,
  logical rewriter, physical rewriter; none of them is in the sources), over any type
  \<open>'t\<close> of trees. \<open>structural phase\<close> is one application of a transport pass,
  \<open>logical phase runStandalone\<close> the memo rewrites of a logical phase run to their
  fixpoint, \<open>physical requireRID\<close> the cost-based search and the extraction of the
  winner, \<open>None\<close> when no physical plan satisfies the required top-level properties.
  \<open>iterationLimit\<close> bounds the rounds of the mutual fixpoint.
\<close>

record 't rewriters =
  structural :: "OptPhase \<Rightarrow> 't \<Rightarrow> 't"
  logical :: "OptPhase \<Rightarrow> bool \<Rightarrow> 't \<Rightarrow> 't"
  physical :: "bool \<Rightarrow> 't \<Rightarrow> 't option"
  iterationLimit :: nat

text \<open>
  Modelled from the spec: \<open>OptPhaseManager::runStructuralPhase\<close> (body missing). A run
  is the tree together with the phases executed so far, in order; a phase absent from
  the phase set is skipped entirely.
\<close>

definition runStructuralPhase ::
  "'t rewriters \<Rightarrow> OptPhaseManager \<Rightarrow> OptPhase \<Rightarrow> 't \<times> OptPhase list \<Rightarrow> 't \<times> OptPhase list" where
  "runStructuralPhase R self phase run =
     (if hasPhase self phase then (structural R phase (fst run), snd run @ [phase]) else run)"

text \<open>
  Modelled from the spec: the loop of \<open>OptPhaseManager::runStructuralPhases\<close> (body
  missing): "alternate applying each until neither changes the tree, or a bounded
  iteration count is hit"; exceeding the bound is the fatal class of error. A round
  ends the loop only when the first phase left the tree as it found it and the second
  phase did so too.
\<close>

fun structuralLoop ::
  "'t rewriters \<Rightarrow> OptPhaseManager \<Rightarrow> OptPhase \<Rightarrow> OptPhase \<Rightarrow> nat \<Rightarrow> 't \<times> OptPhase list \<Rightarrow>
   ('t \<times> OptPhase list) outcome" where
  "structuralLoop R self phase1 phase2 0 run = Invariant_failed"
| "structuralLoop R self phase1 phase2 (Suc n) run =
     (let run1 = runStructuralPhase R self phase1 run;
          run2 = runStructuralPhase R self phase2 run1
      in if fst run1 = fst run \<and> fst run2 = fst run1 then Returned run2
         else structuralLoop R self phase1 phase2 n run2)"

text \<open>
  Modelled from the spec: \<open>OptPhaseManager::runStructuralPhases\<close> (body missing): two
  structural phases run to their mutual fixpoint, nothing when neither is configured.
\<close>

definition runStructuralPhases ::
  "'t rewriters \<Rightarrow> OptPhaseManager \<Rightarrow> OptPhase \<Rightarrow> OptPhase \<Rightarrow> 't \<times> OptPhase list \<Rightarrow>
   ('t \<times> OptPhase list) outcome" where
  "runStructuralPhases R self phase1 phase2 run =
     (if \<not> hasPhase self phase1 \<and> \<not> hasPhase self phase2 then Returned run
      else structuralLoop R self phase1 phase2 (iterationLimit R) run)"

text \<open>
  Modelled from the spec: \<open>OptPhaseManager::runMemoLogicalRewrite\<close> (body missing): the
  rewrites of a logical memo phase, skipped when the phase is not configured.
\<close>

definition runMemoLogicalRewrite ::
  "'t rewriters \<Rightarrow> OptPhaseManager \<Rightarrow> OptPhase \<Rightarrow> bool \<Rightarrow> 't \<times> OptPhase list \<Rightarrow>
   't \<times> OptPhase list" where
  "runMemoLogicalRewrite R self phase runStandalone run =
     (if hasPhase self phase then (logical R phase runStandalone (fst run), snd run @ [phase])
      else run)"

text \<open>
  Modelled from the spec: \<open>OptPhaseManager::runMemoPhysicalRewrite\<close> (body missing): the
  physical search under the required top-level properties, which include the record
  identifier when \<open>requireRID\<close> is set. It reports \<open>False\<close> when no plan satisfies them,
  and the tree is then whatever the run had reached.
\<close>

definition runMemoPhysicalRewrite ::
  "'t rewriters \<Rightarrow> OptPhaseManager \<Rightarrow> OptPhase \<Rightarrow> 't \<times> OptPhase list \<Rightarrow>
   bool \<times> 't \<times> OptPhase list" where
  "runMemoPhysicalRewrite R self phase run =
     (if \<not> hasPhase self phase then (True, run)
      else case physical R (requireRID self) (fst run) of
        None \<Rightarrow> (False, fst run, snd run @ [phase])
      | Some plan \<Rightarrow> (True, plan, snd run @ [phase]))"

text \<open>
  Modelled from the spec: the two logical phases of \<open>runMemoRewritePhases\<close> (body
  missing): substitution, then exploration, which runs standalone exactly when there
  is no implementation phase.
\<close>

definition runLogicalPhases ::
  "'t rewriters \<Rightarrow> OptPhaseManager \<Rightarrow> 't \<times> OptPhase list \<Rightarrow> 't \<times> OptPhase list" where
  "runLogicalPhases R self run =
     runMemoLogicalRewrite R self MemoExplorationPhase
       (\<not> hasPhase self MemoImplementationPhase)
       (runMemoLogicalRewrite R self MemoSubstitutionPhase True run)"

text \<open>
  Modelled from the spec: \<open>OptPhaseManager::runMemoRewritePhases\<close> (body missing): the
  logical phases, then the physical phase.
\<close>

definition runMemoRewritePhases ::
  "'t rewriters \<Rightarrow> OptPhaseManager \<Rightarrow> 't \<times> OptPhase list \<Rightarrow> bool \<times> 't \<times> OptPhase list" where
  "runMemoRewritePhases R self run =
     runMemoPhysicalRewrite R self MemoImplementationPhase (runLogicalPhases R self run)"

text \<open>
  Modelled from the spec: \<open>OptPhaseManager::optimizeNoAssert\<close> (body missing): the
  pre-pass to its fixpoint, the memo phases, and on success the final cleanup pass;
  \<open>False\<close> when the physical phase reports failure.
\<close>

definition optimizeNoAssert ::
  "'t rewriters \<Rightarrow> OptPhaseManager \<Rightarrow> 't \<Rightarrow> (bool \<times> 't \<times> OptPhase list) outcome" where
  "optimizeNoAssert R self input =
     (case runStructuralPhases R self ConstEvalPre PathFuse (input, []) of
        Invariant_failed \<Rightarrow> Invariant_failed
      | Returned run1 \<Rightarrow>
          (case runMemoRewritePhases R self run1 of
             (False, run2) \<Rightarrow> Returned (False, run2)
           | (True, run2) \<Rightarrow>
               Returned (True,
                 runStructuralPhase R self ConstEvalPost
                   (runStructuralPhase R self PathLower run2))))"

text \<open>
  Modelled from the spec: \<open>OptPhaseManager::optimize\<close> (body missing): the same run; "if
  there is a failure, program will tassert".
\<close>

definition optimize ::
  "'t rewriters \<Rightarrow> OptPhaseManager \<Rightarrow> 't \<Rightarrow> ('t \<times> OptPhase list) outcome" where
  "optimize R self input =
     (case optimizeNoAssert R self input of
        Invariant_failed \<Rightarrow> Invariant_failed
      | Returned (success, run) \<Rightarrow> if success then Returned run else Invariant_failed)"

subsection \<open>What a list of phases does to a tree\<close>

text \<open>
  The rewriter of one phase, with the arguments the pipeline passes to it, and the
  rewriters of a list of phases applied one after the other. They say what it means
  that the phases recorded in a run were run.
\<close>

fun applyPhase :: "'t rewriters \<Rightarrow> OptPhaseManager \<Rightarrow> OptPhase \<Rightarrow> 't \<Rightarrow> 't option" where
  "applyPhase R self ConstEvalPre t = Some (structural R ConstEvalPre t)"
| "applyPhase R self PathFuse t = Some (structural R PathFuse t)"
| "applyPhase R self MemoSubstitutionPhase t = Some (logical R MemoSubstitutionPhase True t)"
| "applyPhase R self MemoExplorationPhase t =
     Some (logical R MemoExplorationPhase (\<not> hasPhase self MemoImplementationPhase) t)"
| "applyPhase R self MemoImplementationPhase t = physical R (requireRID self) t"
| "applyPhase R self PathLower t = Some (structural R PathLower t)"
| "applyPhase R self ConstEvalPost t = Some (structural R ConstEvalPost t)"

fun applyPhases :: "'t rewriters \<Rightarrow> OptPhaseManager \<Rightarrow> OptPhase list \<Rightarrow> 't \<Rightarrow> 't option" where
  "applyPhases R self [] t = Some t"
| "applyPhases R self (phase # phases) t =
     (case applyPhase R self phase t of
        None \<Rightarrow> None
      | Some t' \<Rightarrow> applyPhases R self phases t')"

subsection \<open>The memo\<close>

text \<open>
  Modelled from the spec: expression nodes (the tree classes are missing): "a tagged
  variant over leaf (variable/constant), path step, logical operator", with group
  identifiers as references to memo groups. Structural identity is equality.
\<close>

datatype Expr =
    Variable string
  | Constant int
  | GroupRef nat
  | PathStep string "Expr list"
  | LogicalOp string "Expr list"

text \<open>
  Modelled from the spec: \<open>Group\<close> (class missing): "a set of logical expression
  alternatives (all proven equivalent)" and "a derived logical-properties record". The
  winners of the physical search are left out: insertion does not touch them. A memo is
  the list of its groups, and a group identifier is an index into it.
\<close>

record 'p Group =
  alternatives :: "Expr list"
  logicalProps :: 'p

text \<open>
  Modelled from the spec: the lookup of \<open>Memo::insert\<close> (class missing): "if an
  equivalent expression already exists in some group": the first such group.
\<close>

definition findGroup :: "'p Group list \<Rightarrow> Expr \<Rightarrow> nat option" where
  "findGroup memo e = find (\<lambda>g. e \<in> set (alternatives (memo ! g))) [0..<length memo]"

text \<open>
  Modelled from the spec: \<open>Memo::insert\<close> (class missing): "if an equivalent expression
  already exists in some group, returns that group's id without adding a duplicate;
  otherwise creates a new group, derives its logical properties from its children's
  groups, and returns the new id". \<open>derive\<close> is the derivation of logical properties.
\<close>

definition memo_insert ::
  "('p Group list \<Rightarrow> Expr \<Rightarrow> 'p) \<Rightarrow> 'p Group list \<Rightarrow> Expr \<Rightarrow> nat \<times> 'p Group list" where
  "memo_insert derive memo e =
     (case findGroup memo e of
        Some g \<Rightarrow> (g, memo)
      | None \<Rightarrow> (length memo, memo @ [\<lparr>alternatives = [e], logicalProps = derive memo e\<rparr>]))"

text \<open>
  The memo of a run: created empty, then filled by insertions only (the spec names no
  other operation that adds a member to a group).
\<close>

definition memo_of :: "('p Group list \<Rightarrow> Expr \<Rightarrow> 'p) \<Rightarrow> Expr list \<Rightarrow> 'p Group list" where
  "memo_of derive es = foldl (\<lambda>memo e. snd (memo_insert derive memo e)) [] es"

text \<open>Two expressions are alternatives of one group of the memo.\<close>

definition same_group :: "'p Group list \<Rightarrow> Expr \<Rightarrow> Expr \<Rightarrow> bool" where
  "same_group memo e1 e2 =
     list_ex (\<lambda>G. e1 \<in> set (alternatives G) \<and> e2 \<in> set (alternatives G)) memo"

subsection \<open>A concrete run\<close>

text \<open>
  Trees are numbers: constant evaluation counts down to 0, path lowering adds 10, a
  logical phase adds 1, and the physical search finds a plan (adding 100) unless the
  record identifier is required. The manager has every phase configured.
\<close>

definition example_rewriters :: "nat rewriters" where
  "example_rewriters =
     \<lparr>structural = (\<lambda>phase t. if phase = ConstEvalPre then t - 1
                              else if phase = PathLower then t + 10 else t),
      logical = (\<lambda>phase runStandalone t. t + 1),
      physical = (\<lambda>rid t. if rid then None else Some (t + 100)),
      iterationLimit = 10\<rparr>"

definition example_manager :: "bool \<Rightarrow> OptPhaseManager" where
  "example_manager rid = OptPhaseManager_ctor (set OPT_PHASE) 0 rid False"

definition example_trace :: "OptPhase list" where
  "example_trace =
     [ConstEvalPre, PathFuse, ConstEvalPre, PathFuse, ConstEvalPre, PathFuse,
      MemoSubstitutionPhase, MemoExplorationPhase, MemoImplementationPhase,
      PathLower, ConstEvalPost]"

text \<open>A manager with three of the seven phases, and the phases its run executes.\<close>

definition example_manager_subset :: OptPhaseManager where
  "example_manager_subset =
     OptPhaseManager_ctor {ConstEvalPre, MemoExplorationPhase, PathLower} 0 False False"

definition example_trace_subset :: "OptPhase list" where
  "example_trace_subset =
     [ConstEvalPre, ConstEvalPre, ConstEvalPre, MemoExplorationPhase, PathLower]"

text \<open>Two expressions to insert: a scan, and a filter over the group of the scan.\<close>

definition example_derive :: "unit Group list \<Rightarrow> Expr \<Rightarrow> unit" where
  "example_derive memo e = ()"

definition example_scan :: Expr where
  "example_scan = LogicalOp ''Scan'' [Variable ''coll'']"

definition example_filter :: Expr where
  "example_filter = LogicalOp ''Filter'' [Variable ''f'', GroupRef 0]"

section \<open>Properties of the Azure storage source\<close>

subsection \<open>Flushing\<close>

text \<open>
  C8: when the source file exists on disk and the native file system reports it (return
  code 0, flag set), \<open>azure_flush\<close> returns 0 whatever \<open>put_object\<close> returns; a failed
  upload only adds a line to \<open>std::cerr\<close>, so the return value 0 says nothing about the
  object having reached the bucket.
\<close>

theorem azure_flush_upload_failure_ignored:
  assumes "disk_exists disk source"
      and "native_fs_exist (wt_fs (fss h ! file_system)) (canonical disk source) = (0, True)"
  shows "fst (azure_flush K h disk file_system source object) = 0
       \<and> (put_object (azure_conn (fss h ! file_system)) object (canonical disk source) \<noteq> 0 \<longrightarrow>
            snd (azure_flush K h disk file_system source object) =
              [Cout (''azure_flush: Uploading object: '' @ object
                       @ '' into bucket using put_object.''),
               Cerr ''azure_flush: Put object request to Azure failed.''])"
  using assms by (simp add: azure_flush_def Let_def)

theorem azure_flush_upload_failure_ignored_witness:
  "disk_exists example_disk ''a.wt''
   \<and> native_fs_exist (wt_fs (fss example_heap ! 0)) (canonical example_disk ''a.wt'') = (0, True)
   \<and> put_object (azure_conn (fss example_heap ! 0)) ''a.wt'' (canonical example_disk ''a.wt'') \<noteq> 0
   \<and> fst (azure_flush example_consts example_heap example_disk 0 ''a.wt'' ''a.wt'') = 0
   \<and> snd (azure_flush example_consts example_heap example_disk 0 ''a.wt'' ''a.wt'') =
        [Cout ''azure_flush: Uploading object: a.wt into bucket using put_object.'',
         Cerr ''azure_flush: Put object request to Azure failed.'']"
proof -
  have d: "disk_exists example_disk ''a.wt''"
    by (simp add: example_disk_def)
  have n: "native_fs_exist (wt_fs (fss example_heap ! 0)) (canonical example_disk ''a.wt'')
      = (0, True)"
    by (simp add: example_heap_def)
  have p: "put_object (azure_conn (fss example_heap ! 0)) ''a.wt''
      (canonical example_disk ''a.wt'') \<noteq> 0"
    by (simp add: example_heap_def example_conn_def)
  show ?thesis
    using d n p azure_flush_upload_failure_ignored [OF d n, where K = example_consts
      and object = "''a.wt''"]
    by simp
qed

subsection \<open>The handle list keeps one handle per name\<close>







text \<open>With distinct names, the first handle found by name is the handle of that name.\<close>

lemma find_unique:
  "distinct (map g ps) \<Longrightarrow> p \<in> set ps \<Longrightarrow> g p = v \<Longrightarrow> find (\<lambda>q. g q = v) ps = Some p"
  by (induction ps) (auto simp: image_iff)

lemma list_all_update:
  "list_all P xs \<Longrightarrow> P x \<Longrightarrow> list_all P (xs[i := x])"
  using set_update_subset_insert [of xs i x] by (auto simp: list_all_iff)




lemma azure_file_open_existing:
  assumes "one_handle_per_name h" and "file_system < length (fss h)"
      and "p \<in> set (azure_fh (fss h ! file_system))" and "name (fhs h ! p) = nm"
      and "open_checks_pass K h file_system nm ft flags"
  shows "azure_file_open K h file_system nm ft flags nw =
     (0, Some p,
      h\<lparr>fhs := (fhs h)[p := (fhs h ! p)\<lparr>reference_count := reference_count (fhs h ! p) + 1\<rparr>]\<rparr>,
      [])"
proof -
  have "fs_ok (fhs h) (fss h ! file_system)"
    using assms(1,2) by (simp add: one_handle_per_name_def list_all_length)
  then have "distinct (map (\<lambda>p. name (fhs h ! p)) (azure_fh (fss h ! file_system)))"
    by (simp add: fs_ok_def)
  then have "find (\<lambda>q. name (fhs h ! q) = nm) (azure_fh (fss h ! file_system)) = Some p"
    using assms(3,4) by (rule find_unique)
  then show ?thesis
    using assms(5) by (auto simp: azure_file_open_def open_checks_pass_def Let_def)
qed



text \<open>A file system starts with no handle, so creating one keeps every list well formed.\<close>

lemma azure_customize_file_system_keeps_unique:
  assumes "one_handle_per_name h"
  shows "one_handle_per_name
     (fst (snd (snd (azure_customize_file_system K h bucket cfg fsget nw home mk_conn))))"
proof -
  have "list_all (fs_ok (fhs h)) (fss h)"
    using assms by (simp add: one_handle_per_name_def)
  then have "one_handle_per_name
      (h\<lparr>fss := fss h @ [\<lparr>fs = azure_fs_table, wt_fs = w, azure_fh = [], azure_conn = c,
                          home_dir = home\<rparr>],
         storage := s\<rparr>)" for w c s
    by (simp add: one_handle_per_name_def fs_ok_def)
  with assms show ?thesis
    by (simp add: azure_customize_file_system_def Let_def split: alloc.split sum.split)
qed

text \<open>The memory the entry point leaves has no handle list at all.\<close>

lemma wiredtiger_extension_init_unique:
  "wiredtiger_extension_init added = (ret, Some h, msgs) \<Longrightarrow> one_handle_per_name h"
  by (auto simp: wiredtiger_extension_init_def one_handle_per_name_def split: if_splits)

lemma example_heap_unique: "one_handle_per_name example_heap"
  by (simp add: one_handle_per_name_def fs_ok_def example_heap_def)

text \<open>
  When the checks pass and no handle of the list has the name, a handle is allocated
  with count 1 and pushed to the list of the file system.
\<close>

lemma azure_file_open_new:
  assumes "open_checks_pass K h file_system nm ft flags"
      and "nm \<notin> set (map (\<lambda>p. name (fhs h ! p)) (azure_fh (fss h ! file_system)))"
  shows "azure_file_open K h file_system nm ft flags Alloc_ok =
     (0, Some (length (fhs h)),
      h\<lparr>fhs := fhs h @ [\<lparr>fh = azure_fh_table nm, fh_fs = file_system, name = nm,
                           reference_count = 1\<rparr>],
        fss := (fss h)[file_system := (fss h ! file_system)
           \<lparr>azure_fh := azure_fh (fss h ! file_system) @ [length (fhs h)]\<rparr>]\<rparr>,
      [])"
proof -
  have "find (\<lambda>p. name (fhs h ! p) = nm) (azure_fh (fss h ! file_system)) = None"
    using assms(2) by (auto simp: find_None_iff)
  then show ?thesis
    using assms(1) by (simp add: azure_file_open_def open_checks_pass_def Let_def)
qed





subsection \<open>Unsupported operations and the operations provided\<close>

text \<open>The tables are installed at allocation and no function changes them.\<close>

lemma wiredtiger_extension_init_tables:
  "wiredtiger_extension_init added = (ret, Some h, msgs) \<Longrightarrow> tables_installed h"
  by (auto simp: wiredtiger_extension_init_def tables_installed_def split: if_splits)

lemma azure_customize_file_system_keeps_tables:
  assumes "tables_installed h"
  shows "tables_installed
     (fst (snd (snd (azure_customize_file_system K h bucket cfg fsget nw home mk_conn))))"
  using assms
  by (simp add: azure_customize_file_system_def tables_installed_def Let_def
      split: alloc.split sum.split)

lemma count_keeps_tables:
  assumes "list_all (\<lambda>x. fh x = azure_fh_table (name x)) hs"
  shows "list_all (\<lambda>x. fh x = azure_fh_table (name x))
     (hs[p := (hs ! p)\<lparr>reference_count := c\<rparr>])"
proof (cases "p < length hs")
  case True
  with assms have "fh (hs ! p) = azure_fh_table (name (hs ! p))"
    by (simp add: list_all_length)
  with assms show ?thesis
    by (intro list_all_update) simp_all
next
  case False
  with assms show ?thesis
    by (simp add: list_update_beyond)
qed

lemma list_keeps_tables:
  assumes "list_all (\<lambda>f. fs f = azure_fs_table) fl"
  shows "list_all (\<lambda>f. fs f = azure_fs_table) (fl[i := (fl ! i)\<lparr>azure_fh := ps\<rparr>])"
proof (cases "i < length fl")
  case True
  with assms have "fs (fl ! i) = azure_fs_table"
    by (simp add: list_all_length)
  with assms show ?thesis
    by (intro list_all_update) simp_all
next
  case False
  with assms show ?thesis
    by (simp add: list_update_beyond)
qed

lemma azure_file_open_keeps_tables:
  assumes "tables_installed h"
  shows "tables_installed (fst (snd (snd (azure_file_open K h file_system nm ft flags nw))))"
  using assms
  by (simp add: azure_file_open_def tables_installed_def Let_def count_keeps_tables
      list_keeps_tables split: option.split alloc.split)

lemma azure_file_close_keeps_tables:
  assumes "tables_installed h"
  shows "tables_installed (snd (azure_file_close h file_handle))"
  using assms
  by (simp add: azure_file_close_def tables_installed_def Let_def count_keeps_tables
      list_keeps_tables)

lemma example_heap_tables: "tables_installed example_heap"
  by (simp add: tables_installed_def example_heap_def)

text \<open>A successful \<open>azure_customize_file_system\<close> hands out a new file system with the table.\<close>

lemma azure_customize_file_system_new:
  assumes "bucket \<noteq> None" and "bucket \<noteq> Some []"
      and "fst cfg = 0 \<or> fst cfg = WT_NOTFOUND K" and "fst fsget = 0"
      and "mk_conn (the bucket) (if fst cfg = 0 then snd cfg else []) = Inr conn"
  shows "azure_customize_file_system K h bucket cfg fsget Alloc_ok home mk_conn =
     (0, Some (length (fss h)),
      h\<lparr>fss := fss h @ [\<lparr>fs = azure_fs_table, wt_fs = snd fsget, azure_fh = [],
                           azure_conn = conn, home_dir = home\<rparr>],
        storage := (storage h)\<lparr>azure_fs := azure_fs (storage h) @ [length (fss h)]\<rparr>\<rparr>,
      [])"
  using assms by (auto simp: azure_customize_file_system_def Let_def)

text \<open>A successful \<open>azure_file_open\<close> hands out an allocated handle of the name with the table.\<close>

lemma azure_file_open_handle:
  assumes "tables_installed h" and "one_handle_per_name h" and "file_system < length (fss h)"
      and "open_checks_pass K h file_system nm ft flags"
  shows "\<exists>p h' msgs. azure_file_open K h file_system nm ft flags Alloc_ok = (0, Some p, h', msgs)
       \<and> p < length (fhs h') \<and> name (fhs h' ! p) = nm \<and> fh (fhs h' ! p) = azure_fh_table nm"
proof (cases "nm \<in> set (map (\<lambda>p. name (fhs h ! p)) (azure_fh (fss h ! file_system)))")
  case True
  then obtain p where p: "p \<in> set (azure_fh (fss h ! file_system))" "name (fhs h ! p) = nm"
    by auto
  have "fs_ok (fhs h) (fss h ! file_system)"
    using assms(2,3) by (simp add: one_handle_per_name_def list_all_length)
  with p(1) have bound: "p < length (fhs h)"
    by (auto simp: fs_ok_def list_all_iff)
  with assms(1) p(2) have "fh (fhs h ! p) = azure_fh_table nm"
    by (auto simp: tables_installed_def list_all_length)
  with bound p(2) azure_file_open_existing [OF assms(2,3) p assms(4), of Alloc_ok]
  show ?thesis by simp
next
  case False
  with assms(4) have "azure_file_open K h file_system nm ft flags Alloc_ok =
     (0, Some (length (fhs h)),
      h\<lparr>fhs := fhs h @ [\<lparr>fh = azure_fh_table nm, fh_fs = file_system, name = nm,
                           reference_count = 1\<rparr>],
        fss := (fss h)[file_system := (fss h ! file_system)
           \<lparr>azure_fh := azure_fh (fss h ! file_system) @ [length (fhs h)]\<rparr>]\<rparr>,
      [])"
    by (rule azure_file_open_new)
  then show ?thesis by simp
qed

text \<open>
  C6: for every input \<open>azure_remove\<close> and \<open>azure_rename\<close> return \<open>ENOTSUP\<close> and leave the
  memory as it was (they only write a line to \<open>std::cerr\<close>). The file system that a
  successful \<open>azure_customize_file_system\<close> hands out has these two functions as its
  remove and rename, and it provides list, list single, open, size and exists; the
  handle that a successful \<open>azure_file_open\<close> hands out provides read, size and close
  (the pointer names the static function of the file).
\<close>

theorem azure_remove_rename_unsupported:
  "fst (azure_remove K h file_system nm flags) = ENOTSUP K
   \<and> fst (snd (azure_remove K h file_system nm flags)) = h
   \<and> fst (azure_rename K h file_system from to flags) = ENOTSUP K
   \<and> fst (snd (azure_rename K h file_system from to flags)) = h
   \<and> (bucket \<noteq> None \<and> bucket \<noteq> Some [] \<and> (fst cfg = 0 \<or> fst cfg = WT_NOTFOUND K)
        \<and> fst fsget = 0
        \<and> mk_conn (the bucket) (if fst cfg = 0 then snd cfg else []) = Inr conn \<longrightarrow>
      (case azure_customize_file_system K h bucket cfg fsget Alloc_ok home mk_conn of
         (ret, fsp, h', msgs) \<Rightarrow>
           ret = 0 \<and> fsp = Some (length (fss h)) \<and> length (fss h') = Suc (length (fss h))
           \<and> azure_fs (storage h') = azure_fs (storage h) @ [length (fss h)]
           \<and> fs_remove (fs (fss h' ! length (fss h))) = Some Azure_remove
           \<and> fs_rename (fs (fss h' ! length (fss h))) = Some Azure_rename
           \<and> fs_directory_list (fs (fss h' ! length (fss h))) = Some Azure_object_list
           \<and> fs_directory_list_single (fs (fss h' ! length (fss h)))
               = Some Azure_object_list_single
           \<and> fs_open_file (fs (fss h' ! length (fss h))) = Some Azure_file_open
           \<and> fs_size (fs (fss h' ! length (fss h))) = Some Azure_object_size
           \<and> fs_exist (fs (fss h' ! length (fss h))) = Some Azure_file_system_exists))
   \<and> (tables_installed h \<and> one_handle_per_name h \<and> file_system < length (fss h)
        \<and> open_checks_pass K h file_system onm ft oflags \<longrightarrow>
      (case azure_file_open K h file_system onm ft oflags Alloc_ok of
         (ret, fhp, h', msgs) \<Rightarrow>
           ret = 0
           \<and> (\<exists>p. p < length (fhs h') \<and> fhp = Some p \<and> name (fhs h' ! p) = onm
                \<and> fh_read (fh (fhs h' ! p)) = Some Azure_file_read
                \<and> fh_size (fh (fhs h' ! p)) = Some Azure_file_size
                \<and> close (fh (fhs h' ! p)) = Some Azure_file_close)))"
proof -
  have unsupported: "fst (azure_remove K h file_system nm flags) = ENOTSUP K
      \<and> fst (snd (azure_remove K h file_system nm flags)) = h
      \<and> fst (azure_rename K h file_system from to flags) = ENOTSUP K
      \<and> fst (snd (azure_rename K h file_system from to flags)) = h"
    by (simp add: azure_remove_def azure_rename_def)
  have customized: "case azure_customize_file_system K h bucket cfg fsget Alloc_ok home mk_conn of
         (ret, fsp, h', msgs) \<Rightarrow>
           ret = 0 \<and> fsp = Some (length (fss h)) \<and> length (fss h') = Suc (length (fss h))
           \<and> azure_fs (storage h') = azure_fs (storage h) @ [length (fss h)]
           \<and> fs_remove (fs (fss h' ! length (fss h))) = Some Azure_remove
           \<and> fs_rename (fs (fss h' ! length (fss h))) = Some Azure_rename
           \<and> fs_directory_list (fs (fss h' ! length (fss h))) = Some Azure_object_list
           \<and> fs_directory_list_single (fs (fss h' ! length (fss h)))
               = Some Azure_object_list_single
           \<and> fs_open_file (fs (fss h' ! length (fss h))) = Some Azure_file_open
           \<and> fs_size (fs (fss h' ! length (fss h))) = Some Azure_object_size
           \<and> fs_exist (fs (fss h' ! length (fss h))) = Some Azure_file_system_exists"
    if "bucket \<noteq> None" and "bucket \<noteq> Some []" and "fst cfg = 0 \<or> fst cfg = WT_NOTFOUND K"
      and "fst fsget = 0"
      and "mk_conn (the bucket) (if fst cfg = 0 then snd cfg else []) = Inr conn"
  proof -
    have "azure_customize_file_system K h bucket cfg fsget Alloc_ok home mk_conn =
       (0, Some (length (fss h)),
        h\<lparr>fss := fss h @ [\<lparr>fs = azure_fs_table, wt_fs = snd fsget, azure_fh = [],
                             azure_conn = conn, home_dir = home\<rparr>],
          storage := (storage h)\<lparr>azure_fs := azure_fs (storage h) @ [length (fss h)]\<rparr>\<rparr>,
        [])"
      using that by (rule azure_customize_file_system_new)
    then show ?thesis
      by (simp add: azure_fs_table_def)
  qed
  have opened: "case azure_file_open K h file_system onm ft oflags Alloc_ok of
         (ret, fhp, h', msgs) \<Rightarrow>
           ret = 0
           \<and> (\<exists>p. p < length (fhs h') \<and> fhp = Some p \<and> name (fhs h' ! p) = onm
                \<and> fh_read (fh (fhs h' ! p)) = Some Azure_file_read
                \<and> fh_size (fh (fhs h' ! p)) = Some Azure_file_size
                \<and> close (fh (fhs h' ! p)) = Some Azure_file_close)"
    if "tables_installed h" and "one_handle_per_name h" and "file_system < length (fss h)"
      and "open_checks_pass K h file_system onm ft oflags"
  proof -
    from azure_file_open_handle [OF that] obtain p h' msgs where
      result: "azure_file_open K h file_system onm ft oflags Alloc_ok = (0, Some p, h', msgs)"
      and p: "p < length (fhs h')" "name (fhs h' ! p) = onm"
        "fh (fhs h' ! p) = azure_fh_table onm"
      by blast
    from p have "p < length (fhs h') \<and> Some p = Some p \<and> name (fhs h' ! p) = onm
        \<and> fh_read (fh (fhs h' ! p)) = Some Azure_file_read
        \<and> fh_size (fh (fhs h' ! p)) = Some Azure_file_size
        \<and> close (fh (fhs h' ! p)) = Some Azure_file_close"
      by (simp add: azure_fh_table_def)
    then show ?thesis
      unfolding result prod.case by blast
  qed
  have provided: "bucket \<noteq> None \<and> bucket \<noteq> Some [] \<and> (fst cfg = 0 \<or> fst cfg = WT_NOTFOUND K)
        \<and> fst fsget = 0
        \<and> mk_conn (the bucket) (if fst cfg = 0 then snd cfg else []) = Inr conn \<longrightarrow>
      (case azure_customize_file_system K h bucket cfg fsget Alloc_ok home mk_conn of
         (ret, fsp, h', msgs) \<Rightarrow>
           ret = 0 \<and> fsp = Some (length (fss h)) \<and> length (fss h') = Suc (length (fss h))
           \<and> azure_fs (storage h') = azure_fs (storage h) @ [length (fss h)]
           \<and> fs_remove (fs (fss h' ! length (fss h))) = Some Azure_remove
           \<and> fs_rename (fs (fss h' ! length (fss h))) = Some Azure_rename
           \<and> fs_directory_list (fs (fss h' ! length (fss h))) = Some Azure_object_list
           \<and> fs_directory_list_single (fs (fss h' ! length (fss h)))
               = Some Azure_object_list_single
           \<and> fs_open_file (fs (fss h' ! length (fss h))) = Some Azure_file_open
           \<and> fs_size (fs (fss h' ! length (fss h))) = Some Azure_object_size
           \<and> fs_exist (fs (fss h' ! length (fss h))) = Some Azure_file_system_exists)"
    by (rule impI, elim conjE) (rule customized)
  have handed: "tables_installed h \<and> one_handle_per_name h \<and> file_system < length (fss h)
        \<and> open_checks_pass K h file_system onm ft oflags \<longrightarrow>
      (case azure_file_open K h file_system onm ft oflags Alloc_ok of
         (ret, fhp, h', msgs) \<Rightarrow>
           ret = 0
           \<and> (\<exists>p. p < length (fhs h') \<and> fhp = Some p \<and> name (fhs h' ! p) = onm
                \<and> fh_read (fh (fhs h' ! p)) = Some Azure_file_read
                \<and> fh_size (fh (fhs h' ! p)) = Some Azure_file_size
                \<and> close (fh (fhs h' ! p)) = Some Azure_file_close))"
    by (rule impI, elim conjE) (rule opened)
  from unsupported provided handed show ?thesis
    by (elim conjE) (intro conjI, assumption+)
qed

theorem azure_remove_rename_unsupported_witness:
  "fst (azure_remove example_consts example_heap 0 ''a.wt'' 0) = 95
   \<and> fst (azure_rename example_consts example_heap 0 ''a.wt'' ''b.wt'' 0) = 95
   \<and> fst (example_native_answer) = 0
   \<and> example_mk_conn ''bucket'' ''prefix'' = Inr example_conn
   \<and> fst (snd (azure_customize_file_system example_consts example_heap (Some ''bucket'')
        (0, ''prefix'') example_native_answer Alloc_ok ''/data'' example_mk_conn)) = Some 1
   \<and> fs_remove (fs (fss (fst (snd (snd (azure_customize_file_system example_consts
        example_heap (Some ''bucket'') (0, ''prefix'') example_native_answer Alloc_ok ''/data''
        example_mk_conn)))) ! 1)) = Some Azure_remove
   \<and> fs_open_file (fs (fss (fst (snd (snd (azure_customize_file_system example_consts
        example_heap (Some ''bucket'') (0, ''prefix'') example_native_answer Alloc_ok ''/data''
        example_mk_conn)))) ! 1)) = Some Azure_file_open
   \<and> tables_installed example_heap
   \<and> one_handle_per_name example_heap
   \<and> open_checks_pass example_consts example_heap 0 ''c.wt'' WT_FS_OPEN_FILE_TYPE_DATA 256
   \<and> fst (azure_file_open example_consts example_heap 0 ''c.wt'' WT_FS_OPEN_FILE_TYPE_DATA
        256 Alloc_ok) = 0
   \<and> fst (snd (azure_file_open example_consts example_heap 0 ''c.wt''
        WT_FS_OPEN_FILE_TYPE_DATA 256 Alloc_ok)) \<noteq> None"
proof -
  have k: "ENOTSUP example_consts = 95"
    by (simp add: example_consts_def)
  have a: "fst (example_native_answer) = 0"
    and m: "example_mk_conn ''bucket'' ''prefix'' = Inr example_conn"
    by (simp_all add: example_native_answer_def example_mk_conn_def)
  have len: "length (fss example_heap) = 1"
    by (simp add: example_heap_def)
  have c: "open_checks_pass example_consts example_heap 0 ''c.wt'' WT_FS_OPEN_FILE_TYPE_DATA 256"
    by (simp add: open_checks_pass_def example_consts_def example_heap_def example_conn_def)
  note t = azure_remove_rename_unsupported [where K = example_consts and h = example_heap
      and file_system = 0 and nm = "''a.wt''" and flags = 0 and ?from = "''a.wt''"
      and to = "''b.wt''" and bucket = "Some ''bucket''" and cfg = "(0, ''prefix'')"
      and fsget = example_native_answer and mk_conn = example_mk_conn and conn = example_conn
      and home = "''/data''" and onm = "''c.wt''" and ft = WT_FS_OPEN_FILE_TYPE_DATA
      and oflags = 256]
  show ?thesis
    using k a m len c example_heap_tables example_heap_unique t
    by (auto split: prod.splits)
qed

subsection \<open>Opening is refused with \<open>EINVAL\<close>\<close>

text \<open>
  C10: \<open>azure_file_open\<close> returns \<open>EINVAL\<close>, stores no handle and leaves the memory as it
  was whenever the flags lack read-only access, or include create, or the file type is
  neither data nor regular, or the bucket reports (return code 0) that the object does
  not exist; a handle is stored only when all four checks pass. (A failed
  \<open>object_exists\<close> request returns the code of the request.)
\<close>

theorem azure_file_open_einval:
  "(case azure_file_open K h file_system nm ft flags nw of
      (ret, fhp, h', msgs) \<Rightarrow>
        (flags AND WT_FS_OPEN_READONLY K = 0
         \<or> flags AND WT_FS_OPEN_CREATE K \<noteq> 0
         \<or> (ft \<noteq> WT_FS_OPEN_FILE_TYPE_DATA \<and> ft \<noteq> WT_FS_OPEN_FILE_TYPE_REGULAR)
         \<or> (fst (object_exists (azure_conn (fss h ! file_system)) nm) = 0
            \<and> \<not> fst (snd (object_exists (azure_conn (fss h ! file_system)) nm)))
         \<longrightarrow> ret = EINVAL K \<and> fhp = None \<and> h' = h)
        \<and> (fhp \<noteq> None \<longrightarrow> open_checks_pass K h file_system nm ft flags))"
  by (simp add: azure_file_open_def open_checks_pass_def Let_def
      split: option.split alloc.split)

theorem azure_file_open_einval_witness:
  "fst (azure_file_open example_consts example_heap 0 ''a.wt'' WT_FS_OPEN_FILE_TYPE_DATA 4 Alloc_ok)
     = 22
   \<and> fst (azure_file_open example_consts example_heap 0 ''a.wt'' WT_FS_OPEN_FILE_TYPE_LOG 256
       Alloc_ok) = 22
   \<and> fst (azure_file_open example_consts example_heap 0 ''b.wt'' WT_FS_OPEN_FILE_TYPE_DATA 256
       Alloc_ok) = 22
   \<and> fst (snd (azure_file_open example_consts example_heap 0 ''b.wt'' WT_FS_OPEN_FILE_TYPE_DATA
       256 Alloc_ok)) = None
   \<and> fst (snd (azure_file_open example_consts example_heap 0 ''a.wt'' WT_FS_OPEN_FILE_TYPE_DATA
       256 Alloc_ok)) \<noteq> None
   \<and> open_checks_pass example_consts example_heap 0 ''a.wt'' WT_FS_OPEN_FILE_TYPE_DATA 256"
proof -
  have k: "WT_FS_OPEN_READONLY example_consts = 256" "WT_FS_OPEN_CREATE example_consts = 4"
      "EINVAL example_consts = 22"
    by (simp_all add: example_consts_def)
  have e: "object_exists (azure_conn (fss example_heap ! 0)) ''b.wt'' = (0, False, 0)"
    by (simp add: example_heap_def example_conn_def)
  have p: "fst (snd (azure_file_open example_consts example_heap 0 ''a.wt''
      WT_FS_OPEN_FILE_TYPE_DATA 256 Alloc_ok)) \<noteq> None"
    by (simp add: azure_file_open_def example_consts_def example_heap_def example_conn_def)
  show ?thesis
    using k e p
      azure_file_open_einval [where K = example_consts and h = example_heap
        and file_system = 0 and nm = "''a.wt''" and ft = WT_FS_OPEN_FILE_TYPE_DATA
        and flags = 4 and nw = Alloc_ok]
      azure_file_open_einval [where K = example_consts and h = example_heap
        and file_system = 0 and nm = "''a.wt''" and ft = WT_FS_OPEN_FILE_TYPE_LOG
        and flags = 256 and nw = Alloc_ok]
      azure_file_open_einval [where K = example_consts and h = example_heap
        and file_system = 0 and nm = "''b.wt''" and ft = WT_FS_OPEN_FILE_TYPE_DATA
        and flags = 256 and nw = Alloc_ok]
      azure_file_open_einval [where K = example_consts and h = example_heap
        and file_system = 0 and nm = "''a.wt''" and ft = WT_FS_OPEN_FILE_TYPE_DATA
        and flags = 256 and nw = Alloc_ok]
    by (auto split: prod.splits)
qed

section \<open>Properties of the yield restore\<close>

text \<open>
  C5: the call fails an invariant exactly when no namespace was captured at construction
  or the collection lock on it is not held. When it returns, it has fetched the
  collection by the UUID, and it returns a null pointer, leaving the operation context
  as it was, exactly when the collection was dropped or its namespace no longer equals
  the captured one. Otherwise it returns the collection the catalog holds for the UUID,
  after establishing the capped snapshot when the collection uses capped snapshots and
  then checking the read source for the namespace.
\<close>

theorem yield_restore_null_iff_dropped_or_renamed:
  "(LockedCollectionYieldRestore_call self opCtx uuid = Invariant_failed
      \<longleftrightarrow> isEmpty (nss self) \<or> \<not> isCollectionLockedForMode_IS opCtx (nss self))
   \<and> (\<forall>r opCtx'. LockedCollectionYieldRestore_call self opCtx uuid = Returned (r, opCtx') \<longrightarrow>
         (r = None \<longleftrightarrow>
            lookupCollectionByUUIDForRead opCtx uuid = None
            \<or> (\<exists>c. lookupCollectionByUUIDForRead opCtx uuid = Some c \<and> ns c \<noteq> nss self))
         \<and> (r = None \<longrightarrow> opCtx' = opCtx)
         \<and> (\<forall>c. r = Some c \<longrightarrow>
               lookupCollectionByUUIDForRead opCtx uuid = Some c
               \<and> opCtx' = opCtx\<lparr>calls := calls opCtx
                    @ (if usesCappedSnapshots c then [Establish c] else [])
                    @ [ChangeReadSourceIfNeeded (ns c)]\<rparr>))"
  by (auto simp: LockedCollectionYieldRestore_call_def Let_def split: option.splits)

theorem yield_restore_null_iff_dropped_or_renamed_witness:
  "LockedCollectionYieldRestore_call \<lparr>nss = ''test.coll''\<rparr> example_opCtx 1
     = Returned (Some \<lparr>ns = ''test.coll'', usesCappedSnapshots = True\<rparr>,
         example_opCtx\<lparr>calls := [Establish \<lparr>ns = ''test.coll'', usesCappedSnapshots = True\<rparr>,
           ChangeReadSourceIfNeeded ''test.coll'']\<rparr>)
   \<and> LockedCollectionYieldRestore_call \<lparr>nss = ''test.coll''\<rparr> example_opCtx 2
     = Returned (None, example_opCtx)
   \<and> LockedCollectionYieldRestore_call \<lparr>nss = ''test.coll''\<rparr> example_opCtx 3
     = Returned (None, example_opCtx)
   \<and> LockedCollectionYieldRestore_call \<lparr>nss = []\<rparr> example_opCtx 1 = Invariant_failed"
proof -
  have l: "lookupCollectionByUUIDForRead example_opCtx 1
        = Some \<lparr>ns = ''test.coll'', usesCappedSnapshots = True\<rparr>"
      "lookupCollectionByUUIDForRead example_opCtx 2
        = Some \<lparr>ns = ''test.renamed'', usesCappedSnapshots = False\<rparr>"
      "lookupCollectionByUUIDForRead example_opCtx 3 = None"
      "isCollectionLockedForMode_IS example_opCtx ''test.coll''"
      "calls example_opCtx = []"
    by (simp_all add: example_opCtx_def)
  note t = yield_restore_null_iff_dropped_or_renamed
  have a: "\<exists>r o'. LockedCollectionYieldRestore_call \<lparr>nss = ''test.coll''\<rparr> example_opCtx u
      = Returned (r, o')" for u
    using t [of "\<lparr>nss = ''test.coll''\<rparr>" example_opCtx u] l(4)
    by (cases "LockedCollectionYieldRestore_call \<lparr>nss = ''test.coll''\<rparr> example_opCtx u")
      (auto simp: isEmpty_def)
  show ?thesis
    using l a [of 1] a [of 2] a [of 3]
      t [of "\<lparr>nss = ''test.coll''\<rparr>" example_opCtx 1]
      t [of "\<lparr>nss = ''test.coll''\<rparr>" example_opCtx 2]
      t [of "\<lparr>nss = ''test.coll''\<rparr>" example_opCtx 3]
      t [of "\<lparr>nss = []\<rparr>" example_opCtx 1]
    by (auto simp: isEmpty_def)
qed

section \<open>Properties of the phase manager\<close>

subsection \<open>The concrete run\<close>

lemma example_run:
  "optimizeNoAssert example_rewriters (example_manager False) 2
     = Returned (True, 112, example_trace)"
  by (simp add: optimizeNoAssert_def runStructuralPhases_def runStructuralPhase_def
      runMemoRewritePhases_def runMemoPhysicalRewrite_def runLogicalPhases_def
      runMemoLogicalRewrite_def hasPhase_def example_manager_def OptPhaseManager_ctor_def
      OPT_PHASE_def example_rewriters_def example_trace_def eval_nat_numeral Let_def)

lemma example_run_rid:
  "optimizeNoAssert example_rewriters (example_manager True) 2
     = Returned (False, 2, take 9 example_trace)"
  by (simp add: optimizeNoAssert_def runStructuralPhases_def runStructuralPhase_def
      runMemoRewritePhases_def runMemoPhysicalRewrite_def runLogicalPhases_def
      runMemoLogicalRewrite_def hasPhase_def example_manager_def OptPhaseManager_ctor_def
      OPT_PHASE_def example_rewriters_def example_trace_def eval_nat_numeral Let_def)

subsection \<open>\<open>optimize\<close> and \<open>optimizeNoAssert\<close>\<close>

text \<open>
  C1: \<open>optimize\<close> returns a tree exactly when \<open>optimizeNoAssert\<close> returns \<open>True\<close>, and
  then with the same tree (and the same phases run); when \<open>optimizeNoAssert\<close> returns
  \<open>False\<close>, \<open>optimize\<close> aborts; and \<open>optimizeNoAssert\<close> returns \<open>False\<close> exactly when the
  implementation phase is configured and the physical search finds no plan for the tree
  that reaches it. Nothing is said about the tree after a failure.
\<close>

theorem optimize_vs_optimizeNoAssert:
  "(optimize R self input = Returned run \<longleftrightarrow> optimizeNoAssert R self input = Returned (True, run))
   \<and> ((\<exists>run. optimizeNoAssert R self input = Returned (False, run)) \<longrightarrow>
        optimize R self input = Invariant_failed)
   \<and> ((\<exists>run. optimizeNoAssert R self input = Returned (False, run)) \<longleftrightarrow>
        hasPhase self MemoImplementationPhase
        \<and> (\<exists>run1. runStructuralPhases R self ConstEvalPre PathFuse (input, []) = Returned run1
              \<and> physical R (requireRID self) (fst (runLogicalPhases R self run1)) = None))"
  by (auto simp: optimize_def optimizeNoAssert_def runMemoRewritePhases_def
      runMemoPhysicalRewrite_def split: outcome.splits prod.splits bool.splits option.splits
      if_splits)

theorem optimize_vs_optimizeNoAssert_witness:
  "optimizeNoAssert example_rewriters (example_manager False) 2
     = Returned (True, 112, example_trace)
   \<and> optimize example_rewriters (example_manager False) 2 = Returned (112, example_trace)
   \<and> optimizeNoAssert example_rewriters (example_manager True) 2
     = Returned (False, 2, take 9 example_trace)
   \<and> optimize example_rewriters (example_manager True) 2 = Invariant_failed
   \<and> hasPhase (example_manager True) MemoImplementationPhase"
  using example_run example_run_rid
    optimize_vs_optimizeNoAssert [of example_rewriters "example_manager False" 2
      "(112, example_trace)"]
    optimize_vs_optimizeNoAssert [of example_rewriters "example_manager True" 2]
  by auto

subsection \<open>The order of the phases\<close>

lemma applyPhases_append:
  "applyPhases R self (ps @ qs) t =
     (case applyPhases R self ps t of None \<Rightarrow> None | Some t' \<Rightarrow> applyPhases R self qs t')"
  by (induction ps arbitrary: t) (auto split: option.splits)

lemma applyPhase_structural:
  "phase \<in> {ConstEvalPre, PathFuse, PathLower, ConstEvalPost} \<Longrightarrow>
   applyPhase R self phase t = Some (structural R phase t)"
  by auto

text \<open>A structural phase appends itself to the run exactly when it rewrites the tree.\<close>

lemma runStructuralPhase_trace:
  "snd (runStructuralPhase R self phase run) = snd run @ filter (hasPhase self) [phase]"
  by (simp add: runStructuralPhase_def)

lemma runStructuralPhase_applied:
  assumes "applyPhases R self (snd run) input = Some (fst run)"
      and "phase \<in> {ConstEvalPre, PathFuse, PathLower, ConstEvalPost}"
  shows "applyPhases R self (snd (runStructuralPhase R self phase run)) input
       = Some (fst (runStructuralPhase R self phase run))"
  using assms(1) applyPhase_structural [OF assms(2), of R self "fst run"]
  by (simp add: runStructuralPhase_def applyPhases_append)

text \<open>The loop runs at least one round, and every round is the two phases in order.\<close>

lemma structuralLoop_trace:
  assumes "structuralLoop R self phase1 phase2 n run = Returned run'"
      and "phase1 \<in> {ConstEvalPre, PathFuse, PathLower, ConstEvalPost}"
      and "phase2 \<in> {ConstEvalPre, PathFuse, PathLower, ConstEvalPost}"
      and "applyPhases R self (snd run) input = Some (fst run)"
  shows "(\<exists>k. 0 < k
            \<and> snd run' = snd run @ concat (replicate k (filter (hasPhase self) [phase1, phase2])))
       \<and> applyPhases R self (snd run') input = Some (fst run')"
  using assms(1,4)
proof (induction n arbitrary: run)
  case 0
  then show ?case by simp
next
  case (Suc n)
  let ?run1 = "runStructuralPhase R self phase1 run"
  let ?run2 = "runStructuralPhase R self phase2 ?run1"
  have step: "snd ?run2 = snd run @ filter (hasPhase self) [phase1, phase2]"
    by (simp add: runStructuralPhase_def)
  have "applyPhases R self (snd ?run1) input = Some (fst ?run1)"
    using Suc.prems(2) assms(2) by (rule runStructuralPhase_applied)
  then have applied: "applyPhases R self (snd ?run2) input = Some (fst ?run2)"
    using assms(3) by (rule runStructuralPhase_applied)
  show ?case
  proof (cases "fst ?run1 = fst run \<and> fst ?run2 = fst ?run1")
    case True
    with Suc.prems(1) have last: "run' = ?run2"
      by (simp add: Let_def)
    with step have
      "snd run' = snd run @ concat (replicate 1 (filter (hasPhase self) [phase1, phase2]))"
      by simp
    then have "\<exists>k. 0 < k
        \<and> snd run' = snd run @ concat (replicate k (filter (hasPhase self) [phase1, phase2]))"
      by (intro exI [of _ 1]) simp
    with applied last show ?thesis by simp
  next
    case False
    with Suc.prems(1) have "structuralLoop R self phase1 phase2 n ?run2 = Returned run'"
      by (auto simp: Let_def)
    from Suc.IH [OF this applied] obtain k where
      k: "snd run' = snd ?run2 @ concat (replicate k (filter (hasPhase self) [phase1, phase2]))"
      and rest: "applyPhases R self (snd run') input = Some (fst run')"
      by blast
    from k step have
      "snd run' = snd run @ concat (replicate (Suc k) (filter (hasPhase self) [phase1, phase2]))"
      by simp
    then have "\<exists>k. 0 < k
        \<and> snd run' = snd run @ concat (replicate k (filter (hasPhase self) [phase1, phase2]))"
      by (intro exI [of _ "Suc k"]) simp
    with rest show ?thesis by simp
  qed
qed

lemma runStructuralPhases_trace:
  assumes "runStructuralPhases R self phase1 phase2 run = Returned run'"
      and "phase1 \<in> {ConstEvalPre, PathFuse, PathLower, ConstEvalPost}"
      and "phase2 \<in> {ConstEvalPre, PathFuse, PathLower, ConstEvalPost}"
      and "applyPhases R self (snd run) input = Some (fst run)"
  shows "(\<exists>k. 0 < k
            \<and> snd run' = snd run @ concat (replicate k (filter (hasPhase self) [phase1, phase2])))
       \<and> applyPhases R self (snd run') input = Some (fst run')"
proof (cases "\<not> hasPhase self phase1 \<and> \<not> hasPhase self phase2")
  case True
  with assms(1) have same: "run' = run"
    by (simp add: runStructuralPhases_def)
  from True have
    "snd run = snd run @ concat (replicate 1 (filter (hasPhase self) [phase1, phase2]))"
    by simp
  then have "\<exists>k. 0 < k
      \<and> snd run = snd run @ concat (replicate k (filter (hasPhase self) [phase1, phase2]))"
    by (intro exI [of _ 1]) simp
  with same assms(4) show ?thesis by simp
next
  case False
  with assms(1) have "structuralLoop R self phase1 phase2 (iterationLimit R) run = Returned run'"
    by (simp add: runStructuralPhases_def split: if_splits)
  then show ?thesis
    using assms(2,3,4) by (rule structuralLoop_trace)
qed

lemma runLogicalPhases_trace:
  "snd (runLogicalPhases R self run)
     = snd run @ filter (hasPhase self) [MemoSubstitutionPhase, MemoExplorationPhase]"
  by (simp add: runLogicalPhases_def runMemoLogicalRewrite_def)

lemma runLogicalPhases_applied:
  assumes "applyPhases R self (snd run) input = Some (fst run)"
  shows "applyPhases R self (snd (runLogicalPhases R self run)) input
       = Some (fst (runLogicalPhases R self run))"
  using assms
  by (simp add: runLogicalPhases_def runMemoLogicalRewrite_def applyPhases_append)

lemma runMemoRewritePhases_trace:
  "snd (snd (runMemoRewritePhases R self run))
     = snd run @ filter (hasPhase self)
         [MemoSubstitutionPhase, MemoExplorationPhase, MemoImplementationPhase]"
  by (simp add: runMemoRewritePhases_def runMemoPhysicalRewrite_def runLogicalPhases_trace
      split: option.split)

lemma runMemoRewritePhases_applied:
  assumes "applyPhases R self (snd run) input = Some (fst run)"
      and "runMemoRewritePhases R self run = (True, run2)"
  shows "applyPhases R self (snd run2) input = Some (fst run2)"
  using runLogicalPhases_applied [OF assms(1)] assms(2)
  by (auto simp: runMemoRewritePhases_def runMemoPhysicalRewrite_def applyPhases_append
      split: if_splits option.splits)

text \<open>
  The phases of a run that returns: at least one round of the pre-pass, the memo phases,
  and after a successful search the final pass, each phase only when it is configured;
  and the tree of a successful run is the input rewritten by these phases in this order.
\<close>

lemma optimizeNoAssert_trace:
  assumes "optimizeNoAssert R self input = Returned (b, t, trace)"
  shows "(\<exists>k. 0 < k
            \<and> trace = concat (replicate k (filter (hasPhase self) [ConstEvalPre, PathFuse]))
                @ filter (hasPhase self)
                    [MemoSubstitutionPhase, MemoExplorationPhase, MemoImplementationPhase]
                @ (if b then filter (hasPhase self) [PathLower, ConstEvalPost] else []))
       \<and> (b \<longrightarrow> applyPhases R self trace input = Some t)"
proof -
  obtain run1 where
    pre: "runStructuralPhases R self ConstEvalPre PathFuse (input, []) = Returned run1"
    using assms by (auto simp: optimizeNoAssert_def split: outcome.splits)
  have start: "applyPhases R self (snd (input, [])) input = Some (fst (input, []))"
    by simp
  have "(\<exists>k. 0 < k \<and> snd run1 = snd (input, [])
            @ concat (replicate k (filter (hasPhase self) [ConstEvalPre, PathFuse])))
      \<and> applyPhases R self (snd run1) input = Some (fst run1)"
    using pre _ _ start by (rule runStructuralPhases_trace) simp_all
  then obtain k where pos: "0 < k"
    and k: "snd run1 = concat (replicate k (filter (hasPhase self) [ConstEvalPre, PathFuse]))"
    and a1: "applyPhases R self (snd run1) input = Some (fst run1)"
    by auto
  obtain b2 run2 where memo: "runMemoRewritePhases R self run1 = (b2, run2)"
    by (cases "runMemoRewritePhases R self run1") auto
  have m: "snd run2 = snd run1 @ filter (hasPhase self)
      [MemoSubstitutionPhase, MemoExplorationPhase, MemoImplementationPhase]"
    using runMemoRewritePhases_trace [of R self run1] memo by simp
  show ?thesis
  proof (cases b2)
    case True
    let ?run3 = "runStructuralPhase R self PathLower run2"
    let ?run4 = "runStructuralPhase R self ConstEvalPost ?run3"
    from True assms pre memo have b: "b" and final: "(t, trace) = ?run4"
      by (simp_all add: optimizeNoAssert_def)
    have "applyPhases R self (snd run2) input = Some (fst run2)"
      using a1 memo True by (auto intro: runMemoRewritePhases_applied)
    then have "applyPhases R self (snd ?run3) input = Some (fst ?run3)"
      by (rule runStructuralPhase_applied) simp
    then have "applyPhases R self (snd ?run4) input = Some (fst ?run4)"
      by (rule runStructuralPhase_applied) simp
    with final have applied: "applyPhases R self trace input = Some t"
      by (metis fst_conv snd_conv)
    have "snd ?run4 = snd run2 @ filter (hasPhase self) [PathLower, ConstEvalPost]"
      by (simp add: runStructuralPhase_def)
    with final have "trace = snd run2 @ filter (hasPhase self) [PathLower, ConstEvalPost]"
      by (metis snd_conv)
    with k m b have "trace = concat (replicate k (filter (hasPhase self) [ConstEvalPre, PathFuse]))
                @ filter (hasPhase self)
                    [MemoSubstitutionPhase, MemoExplorationPhase, MemoImplementationPhase]
                @ (if b then filter (hasPhase self) [PathLower, ConstEvalPost] else [])"
      by simp
    with pos applied show ?thesis by blast
  next
    case False
    with assms pre memo have b: "\<not> b" and "(t, trace) = run2"
      by (simp_all add: optimizeNoAssert_def)
    then have "trace = snd run2" by auto
    with k m b have "trace = concat (replicate k (filter (hasPhase self) [ConstEvalPre, PathFuse]))
                @ filter (hasPhase self)
                    [MemoSubstitutionPhase, MemoExplorationPhase, MemoImplementationPhase]
                @ (if b then filter (hasPhase self) [PathLower, ConstEvalPost] else [])"
      by simp
    with pos b show ?thesis by blast
  qed
qed

lemma OPT_PHASE_complete: "set OPT_PHASE = UNIV"
proof -
  have "p \<in> set OPT_PHASE" for p
    by (cases p) (simp_all add: OPT_PHASE_def)
  then show ?thesis by blast
qed

lemma hasPhase_filter: "set (filter (hasPhase self) ps) \<subseteq> phaseSet self"
  by (auto simp: hasPhase_def)

lemma example_run_subset:
  "optimizeNoAssert example_rewriters example_manager_subset 2
     = Returned (True, 11, example_trace_subset)"
  by (simp add: optimizeNoAssert_def runStructuralPhases_def runStructuralPhase_def
      runMemoRewritePhases_def runMemoPhysicalRewrite_def runLogicalPhases_def
      runMemoLogicalRewrite_def hasPhase_def example_manager_subset_def
      OptPhaseManager_ctor_def example_rewriters_def example_trace_subset_def
      eval_nat_numeral Let_def)

text \<open>
  C3: the enumeration has exactly seven phases. A run that succeeds has executed at
  least one round of the configured ones among \<open>ConstEvalPre\<close>, \<open>PathFuse\<close> (the mutual
  fixpoint, each round in this order) and then, once each and in this order, the
  configured ones among \<open>MemoSubstitutionPhase\<close>, \<open>MemoExplorationPhase\<close>,
  \<open>MemoImplementationPhase\<close>, \<open>PathLower\<close>, \<open>ConstEvalPost\<close>; the tree it returns is the
  input rewritten by exactly these phases in this order; and no run that returns has
  executed a phase absent from the phase set.
\<close>

theorem phases_run_in_fixed_order:
  "length OPT_PHASE = 7 \<and> distinct OPT_PHASE \<and> set OPT_PHASE = UNIV
   \<and> (\<forall>t trace. optimizeNoAssert R self input = Returned (True, t, trace) \<longrightarrow>
         (\<exists>k. 0 < k
            \<and> trace = concat (replicate k (filter (hasPhase self) (take 2 OPT_PHASE)))
                 @ filter (hasPhase self) (drop 2 OPT_PHASE))
         \<and> applyPhases R self trace input = Some t)
   \<and> (\<forall>b t trace. optimizeNoAssert R self input = Returned (b, t, trace) \<longrightarrow>
         set trace \<subseteq> phaseSet self)"
proof -
  have enum: "length OPT_PHASE = 7 \<and> distinct OPT_PHASE"
    by (simp add: OPT_PHASE_def)
  have pre: "take 2 OPT_PHASE = [ConstEvalPre, PathFuse]"
    by (simp add: OPT_PHASE_def)
  have post: "filter (hasPhase self)
        [MemoSubstitutionPhase, MemoExplorationPhase, MemoImplementationPhase]
      @ filter (hasPhase self) [PathLower, ConstEvalPost]
      = filter (hasPhase self) (drop 2 OPT_PHASE)"
    by (simp add: OPT_PHASE_def del: filter.simps flip: filter_append)
  have order: "(\<exists>k. 0 < k
            \<and> trace = concat (replicate k (filter (hasPhase self) (take 2 OPT_PHASE)))
                 @ filter (hasPhase self) (drop 2 OPT_PHASE))
         \<and> applyPhases R self trace input = Some t"
    if run: "optimizeNoAssert R self input = Returned (True, t, trace)" for t trace
  proof -
    from optimizeNoAssert_trace [OF run] obtain k where pos: "0 < k"
      and "trace = concat (replicate k (filter (hasPhase self) [ConstEvalPre, PathFuse]))
            @ filter (hasPhase self)
                [MemoSubstitutionPhase, MemoExplorationPhase, MemoImplementationPhase]
            @ (if True then filter (hasPhase self) [PathLower, ConstEvalPost] else [])"
      and applied: "applyPhases R self trace input = Some t"
      by blast
    then have "trace = concat (replicate k (filter (hasPhase self) (take 2 OPT_PHASE)))
                 @ filter (hasPhase self) (drop 2 OPT_PHASE)"
      by (simp only: if_True post pre)
    with pos applied show ?thesis by blast
  qed
  have skip: "set trace \<subseteq> phaseSet self"
    if run: "optimizeNoAssert R self input = Returned (b, t, trace)" for b t trace
  proof -
    from optimizeNoAssert_trace [OF run] obtain k where
      "trace = concat (replicate k (filter (hasPhase self) [ConstEvalPre, PathFuse]))
            @ filter (hasPhase self)
                [MemoSubstitutionPhase, MemoExplorationPhase, MemoImplementationPhase]
            @ (if b then filter (hasPhase self) [PathLower, ConstEvalPost] else [])"
      by blast
    then have "set trace \<subseteq> set (filter (hasPhase self) [ConstEvalPre, PathFuse])
        \<union> set (filter (hasPhase self)
                [MemoSubstitutionPhase, MemoExplorationPhase, MemoImplementationPhase])
        \<union> set (filter (hasPhase self) [PathLower, ConstEvalPost])"
      by (cases k; cases b) auto
    then show ?thesis
      using hasPhase_filter [of self] by blast
  qed
  from enum OPT_PHASE_complete order skip show ?thesis
    by blast
qed

theorem phases_run_in_fixed_order_witness:
  "optimizeNoAssert example_rewriters (example_manager False) 2
     = Returned (True, 112, example_trace)
   \<and> example_trace
        = concat (replicate 3 (filter (hasPhase (example_manager False)) (take 2 OPT_PHASE)))
            @ filter (hasPhase (example_manager False)) (drop 2 OPT_PHASE)
   \<and> applyPhases example_rewriters (example_manager False) example_trace 2 = Some 112
   \<and> set example_trace \<subseteq> phaseSet (example_manager False)
   \<and> optimizeNoAssert example_rewriters example_manager_subset 2
     = Returned (True, 11, example_trace_subset)
   \<and> example_trace_subset
        = concat (replicate 3 (filter (hasPhase example_manager_subset) (take 2 OPT_PHASE)))
            @ filter (hasPhase example_manager_subset) (drop 2 OPT_PHASE)
   \<and> applyPhases example_rewriters example_manager_subset example_trace_subset 2 = Some 11
   \<and> set example_trace_subset \<subseteq> phaseSet example_manager_subset
   \<and> PathFuse \<notin> set example_trace_subset"
proof -
  have full: "example_trace
        = concat (replicate 3 (filter (hasPhase (example_manager False)) (take 2 OPT_PHASE)))
            @ filter (hasPhase (example_manager False)) (drop 2 OPT_PHASE)"
    by (simp add: example_trace_def hasPhase_def example_manager_def OptPhaseManager_ctor_def
        OPT_PHASE_def eval_nat_numeral)
  have part: "example_trace_subset
        = concat (replicate 3 (filter (hasPhase example_manager_subset) (take 2 OPT_PHASE)))
            @ filter (hasPhase example_manager_subset) (drop 2 OPT_PHASE)"
    by (simp add: example_trace_subset_def hasPhase_def example_manager_subset_def
        OptPhaseManager_ctor_def OPT_PHASE_def eval_nat_numeral)
  have absent: "PathFuse \<notin> set example_trace_subset"
    by (simp add: example_trace_subset_def)
  show ?thesis
    using example_run example_run_subset full part absent
      phases_run_in_fixed_order [of example_rewriters "example_manager False" 2]
      phases_run_in_fixed_order [of example_rewriters example_manager_subset 2]
    by blast
qed

subsection \<open>Insertion into the memo\<close>

lemma findGroup_Some:
  "findGroup memo e = Some g \<Longrightarrow> g < length memo \<and> e \<in> set (alternatives (memo ! g))"
  by (auto simp: findGroup_def find_Some_iff)

lemma findGroup_None:
  "findGroup memo e = None \<Longrightarrow> g < length memo \<Longrightarrow> e \<notin> set (alternatives (memo ! g))"
  by (auto simp: findGroup_def find_None_iff)

lemma findGroup_present:
  "g < length memo \<Longrightarrow> e \<in> set (alternatives (memo ! g)) \<Longrightarrow> \<exists>g'. findGroup memo e = Some g'"
  by (cases "findGroup memo e") (auto dest: findGroup_None)

text \<open>The group returned holds the expression.\<close>

lemma memo_insert_member:
  "memo_insert derive memo e = (g, memo') \<Longrightarrow>
   g < length memo' \<and> e \<in> set (alternatives (memo' ! g))"
  by (auto simp: memo_insert_def nth_append split: option.splits dest: findGroup_Some)

text \<open>Inserting the same expression again finds the group of the first insertion.\<close>

lemma memo_insert_again:
  assumes "memo_insert derive memo e = (g, memo')"
  shows "memo_insert derive memo' e = (g, memo')"
proof (cases "findGroup memo e")
  case (Some g0)
  with assms show ?thesis by (auto simp: memo_insert_def)
next
  case None
  with assms have g: "g = length memo"
    and m: "memo' = memo @ [\<lparr>alternatives = [e], logicalProps = derive memo e\<rparr>]"
    by (auto simp: memo_insert_def)
  have absent: "e \<notin> set (alternatives (memo' ! i))" if "i < length memo" for i
    using that None m by (auto simp: nth_append dest: findGroup_None)
  have "length memo < length memo'" and "e \<in> set (alternatives (memo' ! length memo))"
    using m by simp_all
  then obtain g' where found: "findGroup memo' e = Some g'"
    using findGroup_present by blast
  then have "g' < length memo'" and "e \<in> set (alternatives (memo' ! g'))"
    by (auto dest: findGroup_Some)
  with absent m have "g' = length memo"
    by (cases "g' < length memo") auto
  with found have "findGroup memo' e = Some (length memo)"
    by simp
  with g show ?thesis by (simp add: memo_insert_def)
qed

text \<open>Two distinct expressions share a group identifier only inside a group of the memo.\<close>

lemma memo_insert_distinct:
  assumes "e1 \<noteq> e2"
      and "\<not> same_group memo e1 e2"
  shows "fst (memo_insert derive memo e1)
       \<noteq> fst (memo_insert derive (snd (memo_insert derive memo e1)) e2)"
proof (cases "findGroup memo e1")
  case (Some g1)
  then have first: "memo_insert derive memo e1 = (g1, memo)"
    by (simp add: memo_insert_def)
  have g1: "g1 < length memo" "e1 \<in> set (alternatives (memo ! g1))"
    using Some by (auto dest: findGroup_Some)
  show ?thesis
  proof (cases "findGroup memo e2")
    case (Some g2)
    then have "e2 \<in> set (alternatives (memo ! g2))"
      by (auto dest: findGroup_Some)
    with g1 assms(2) have "g1 \<noteq> g2"
      by (auto simp: same_group_def list_ex_iff)
    with first Some show ?thesis by (simp add: memo_insert_def)
  next
    case None
    with first g1 show ?thesis by (simp add: memo_insert_def)
  qed
next
  case None
  let ?memo1 = "memo @ [\<lparr>alternatives = [e1], logicalProps = derive memo e1\<rparr>]"
  have first: "memo_insert derive memo e1 = (length memo, ?memo1)"
    using None by (simp add: memo_insert_def)
  show ?thesis
  proof (cases "findGroup ?memo1 e2")
    case (Some g2)
    then have "g2 < length ?memo1" and "e2 \<in> set (alternatives (?memo1 ! g2))"
      by (auto dest: findGroup_Some)
    with assms(1) have "g2 \<noteq> length memo"
      by auto
    with first Some show ?thesis by (simp add: memo_insert_def)
  next
    case None
    with first show ?thesis by (simp add: memo_insert_def)
  qed
qed

text \<open>A group found for an expression is the group the insertion returns.\<close>

lemma memo_insert_found:
  assumes "memo_insert derive memo e = (g, memo)"
  shows "findGroup memo e = Some g"
proof (cases "findGroup memo e")
  case None
  with assms have "memo @ [\<lparr>alternatives = [e], logicalProps = derive memo e\<rparr>] = memo"
    by (simp add: memo_insert_def)
  then show ?thesis by simp
next
  case (Some g')
  with assms show ?thesis by (simp add: memo_insert_def)
qed

lemma memo_insert_extends:
  "\<exists>ms. snd (memo_insert derive memo e) = memo @ ms"
  by (cases "findGroup memo e") (simp_all add: memo_insert_def)

lemma members_nth:
  "e \<in> set (concat (map alternatives memo))
     \<longleftrightarrow> (\<exists>g<length memo. e \<in> set (alternatives (memo ! g)))"
proof -
  have "(\<exists>G\<in>set memo. P G) \<longleftrightarrow> (\<exists>g<length memo. P (memo ! g))" for P
    by (metis in_set_conv_nth)
  from this [of "\<lambda>G. e \<in> set (alternatives G)"] show ?thesis
    by simp
qed

lemma findGroup_None_members:
  "findGroup memo e = None \<Longrightarrow> e \<notin> set (concat (map alternatives memo))"
  unfolding members_nth by (auto dest: findGroup_None)

text \<open>
  Insertion keeps every group a single expression and every expression in one group
  only, and adds exactly the inserted expression to the members.
\<close>

lemma memo_insert_members:
  assumes "list_all (\<lambda>G. length (alternatives G) = 1) memo"
      and "distinct (concat (map alternatives memo))"
  shows "list_all (\<lambda>G. length (alternatives G) = 1) (snd (memo_insert derive memo e))
       \<and> distinct (concat (map alternatives (snd (memo_insert derive memo e))))
       \<and> set (concat (map alternatives (snd (memo_insert derive memo e))))
           = insert e (set (concat (map alternatives memo)))"
proof (cases "findGroup memo e")
  case None
  then have "e \<notin> set (concat (map alternatives memo))"
    by (rule findGroup_None_members)
  with assms None show ?thesis
    by (simp add: memo_insert_def)
next
  case (Some g)
  then have "g < length memo" and "e \<in> set (alternatives (memo ! g))"
    by (auto dest: findGroup_Some)
  then have "e \<in> set (concat (map alternatives memo))"
    unfolding members_nth by blast
  with assms Some show ?thesis
    by (auto simp: memo_insert_def)
qed

lemma memo_of_snoc:
  "memo_of derive (es @ [e]) = snd (memo_insert derive (memo_of derive es) e)"
  by (simp add: memo_of_def)

lemma memo_of_members:
  "list_all (\<lambda>G. length (alternatives G) = 1) (memo_of derive es)
   \<and> distinct (concat (map alternatives (memo_of derive es)))
   \<and> set (concat (map alternatives (memo_of derive es))) = set es"
proof (induction es rule: rev_induct)
  case Nil
  show ?case by (simp add: memo_of_def)
next
  case (snoc e es)
  then show ?case
    using memo_insert_members [of "memo_of derive es" derive e]
    by (simp add: memo_of_snoc)
qed

lemma memo_of_extends:
  "\<exists>ms. memo_of derive (es @ es') = memo_of derive es @ ms"
proof (induction es' rule: rev_induct)
  case Nil
  show ?case by simp
next
  case (snoc e es')
  then obtain ms where ms: "memo_of derive (es @ es') = memo_of derive es @ ms"
    by blast
  obtain ms' where "snd (memo_insert derive (memo_of derive (es @ es')) e)
      = memo_of derive (es @ es') @ ms'"
    using memo_insert_extends by blast
  with ms have "memo_of derive (es @ es' @ [e]) = memo_of derive es @ (ms @ ms')"
    using memo_of_snoc [of derive "es @ es'" e] by simp
  then show ?case by blast
qed

lemma singletons_apart:
  "list_all (\<lambda>G. length (alternatives G) = 1) memo \<Longrightarrow> e1 \<noteq> e2 \<Longrightarrow> \<not> same_group memo e1 e2"
  by (auto simp: same_group_def list_ex_iff list_all_iff length_Suc_conv)

text \<open>The first group that holds an expression stays the first one when groups are added.\<close>

lemma find_upt_Some:
  "find P [0..<n] = Some g \<longleftrightarrow> g < n \<and> P g \<and> (\<forall>j<g. \<not> P j)"
  by (auto simp: find_Some_iff)

lemma findGroup_append:
  assumes "findGroup memo e = Some g"
  shows "findGroup (memo @ ms) e = Some g"
proof -
  from assms have g: "g < length memo" "e \<in> set (alternatives (memo ! g))"
    and first: "\<forall>j<g. e \<notin> set (alternatives (memo ! j))"
    by (simp_all add: findGroup_def find_upt_Some)
  have "(memo @ ms) ! j = memo ! j" if "j \<le> g" for j
    using that g(1) by (simp add: nth_append)
  with g first show ?thesis
    by (simp add: findGroup_def find_upt_Some)
qed

text \<open>
  C4: on the memo of a run (created empty and filled by insertions), no expression is a
  member twice and the members are the expressions inserted. Of two insertions one after
  the other, the second yields the group identifier of the first exactly when the two
  expressions are structurally identical, and then it leaves the memo unchanged. An
  expression inserted once yields the same group identifier when it is inserted again
  after any further insertions, again without a change of the memo.
\<close>

theorem memo_insert_dedup:
  "distinct (concat (map alternatives (memo_of derive es)))
   \<and> set (concat (map alternatives (memo_of derive es))) = set es
   \<and> (case memo_insert derive (memo_of derive es) e of
         (g, memo') \<Rightarrow>
           (case memo_insert derive memo' e' of
              (g', memo'') \<Rightarrow> (g' = g \<longleftrightarrow> e' = e) \<and> (e' = e \<longrightarrow> memo'' = memo')))
   \<and> memo_insert derive (memo_of derive (es @ e # es')) e
       = (fst (memo_insert derive (memo_of derive es) e), memo_of derive (es @ e # es'))"
proof -
  let ?memo = "memo_of derive es"
  obtain g memo' where first: "memo_insert derive ?memo e = (g, memo')"
    by (cases "memo_insert derive ?memo e") auto
  have again: "memo_insert derive memo' e = (g, memo')"
    using first by (rule memo_insert_again)
  have single: "list_all (\<lambda>G. length (alternatives G) = 1) ?memo"
    using memo_of_members [of derive es] by simp
  have apart: "fst (memo_insert derive memo' e') \<noteq> g" if "e' \<noteq> e"
  proof -
    from that have "e \<noteq> e'" by simp
    with single have "\<not> same_group ?memo e e'"
      by (rule singletons_apart)
    with \<open>e \<noteq> e'\<close> have "fst (memo_insert derive ?memo e)
        \<noteq> fst (memo_insert derive (snd (memo_insert derive ?memo e)) e')"
      by (rule memo_insert_distinct)
    with first show ?thesis by simp
  qed
  have pair: "case memo_insert derive ?memo e of
         (g, memo') \<Rightarrow>
           (case memo_insert derive memo' e' of
              (g', memo'') \<Rightarrow> (g' = g \<longleftrightarrow> e' = e) \<and> (e' = e \<longrightarrow> memo'' = memo'))"
    using first again apart
    by (cases "memo_insert derive memo' e'") auto
  have "memo' = memo_of derive (es @ [e])"
    using first by (simp add: memo_of_snoc)
  moreover obtain ms where "memo_of derive ((es @ [e]) @ es') = memo_of derive (es @ [e]) @ ms"
    using memo_of_extends by blast
  ultimately have later: "memo_of derive (es @ e # es') = memo' @ ms"
    by simp
  have "findGroup memo' e = Some g"
    using again by (rule memo_insert_found)
  then have "findGroup (memo' @ ms) e = Some g"
    by (rule findGroup_append)
  with later first have stable: "memo_insert derive (memo_of derive (es @ e # es')) e
       = (fst (memo_insert derive ?memo e), memo_of derive (es @ e # es'))"
    by (simp add: memo_insert_def)
  from memo_of_members [of derive es] pair stable show ?thesis
    by blast
qed

theorem memo_insert_dedup_witness:
  "example_scan \<noteq> example_filter
   \<and> memo_of example_derive [example_scan, example_filter, example_scan]
       = [\<lparr>alternatives = [example_scan], logicalProps = ()\<rparr>,
          \<lparr>alternatives = [example_filter], logicalProps = ()\<rparr>]
   \<and> fst (memo_insert example_derive (memo_of example_derive []) example_scan) = 0
   \<and> fst (memo_insert example_derive
            (snd (memo_insert example_derive (memo_of example_derive []) example_scan))
            example_filter) \<noteq> 0
   \<and> memo_insert example_derive
         (memo_of example_derive [example_scan, example_filter]) example_scan
       = (0, memo_of example_derive [example_scan, example_filter])"
proof -
  have apart: "example_scan \<noteq> example_filter"
    by (simp add: example_scan_def example_filter_def)
  have empty: "memo_of example_derive [] = []"
    by (simp add: memo_of_def)
  have one: "memo_insert example_derive [] example_scan
      = (0, [\<lparr>alternatives = [example_scan], logicalProps = ()\<rparr>])"
    by (simp add: memo_insert_def findGroup_def example_derive_def)
  have two: "memo_of example_derive [example_scan, example_filter]
      = [\<lparr>alternatives = [example_scan], logicalProps = ()\<rparr>,
         \<lparr>alternatives = [example_filter], logicalProps = ()\<rparr>]"
    using apart
    by (simp add: memo_of_def memo_insert_def findGroup_def example_derive_def upt_rec)
  have three: "memo_of example_derive [example_scan, example_filter, example_scan]
      = [\<lparr>alternatives = [example_scan], logicalProps = ()\<rparr>,
         \<lparr>alternatives = [example_filter], logicalProps = ()\<rparr>]"
    using apart
    by (simp add: memo_of_def memo_insert_def findGroup_def example_derive_def upt_rec)
  show ?thesis
    using apart empty one two three
      memo_insert_dedup [where derive = example_derive and es = "[]" and e = example_scan
        and e' = example_filter and es' = "[example_filter]"]
    by (auto split: prod.splits)
qed

end
